theory Spec2Isabelle
  imports Complex_Main "HOL-Library.AList"
begin

section \<open>JavaScript values and strings\<close>

text \<open>
  A property of a JSON request object is absent (reading it gives \<open>undefined\<close>),
  \<open>null\<close>, or carries a value. Strings are modelled as Isabelle strings; case
  conversion and whitespace are the ASCII ones.
\<close>

datatype 'a js = Undefined | Null | Val 'a

text \<open>\<open>x || d\<close> on an optional string: \<open>undefined\<close>, \<open>null\<close> and \<open>''\<close> are falsy.\<close>

fun or_else :: "string js \<Rightarrow> string \<Rightarrow> string" where
  "or_else (Val s) d = (if s = [] then d else s)"
| "or_else _ d = d"

text \<open>\<open>x ?? null\<close>, and what the driver sends for \<open>undefined\<close>: SQL NULL.\<close>

fun nullish :: "'a js \<Rightarrow> 'a option" where
  "nullish (Val v) = Some v"
| "nullish _ = None"

definition lower_char :: "char \<Rightarrow> char" where
  "lower_char c =
     (case map_of (zip ''ABCDEFGHIJKLMNOPQRSTUVWXYZ'' ''abcdefghijklmnopqrstuvwxyz'') c of
        Some l \<Rightarrow> l
      | None \<Rightarrow> c)"

definition toLowerCase :: "string \<Rightarrow> string" where
  "toLowerCase s = map lower_char s"

definition is_space :: "char \<Rightarrow> bool" where
  "is_space c = (c \<in> set [CHR 0x09, CHR 0x0A, CHR 0x0B, CHR 0x0C, CHR 0x0D, CHR '' ''])"

definition trim :: "string \<Rightarrow> string" where
  "trim s = rev (dropWhile is_space (rev (dropWhile is_space s)))"

section \<open>Bulk product import: the request records\<close>

text \<open>One element of \<open>req.body.products\<close> in \<open>POST /bulk\<close>.\<close>

record js_product =
  js_name :: "string js"
  js_category :: "string js"
  js_base_cost :: "rat js"
  js_size :: "rat js"
  js_weight :: "rat js"
  js_width :: "rat js"
  js_height :: "rat js"
  js_length :: "rat js"
  js_source :: "string js"
  js_product_sku :: "string js"
  js_parent :: "string js"

subsection \<open>Deduplication by name\<close>

text \<open>\<open>const key = (p.name || '').toLowerCase().trim()\<close>\<close>

definition product_key :: "js_product \<Rightarrow> string" where
  "product_key p = trim (toLowerCase (or_else (js_name p) ''''))"

text \<open>
  The \<open>Map\<close> is an association list in insertion order: \<open>Map.set\<close> on a key that is
  already there replaces the value in place, on a new key it appends
  (\<^const>\<open>AList.update\<close>). \<open>Map.values()\<close> reads the values in that order.
\<close>

fun productMap_set :: "(string \<times> js_product) list \<Rightarrow> js_product list \<Rightarrow> (string \<times> js_product) list" where
  "productMap_set m [] = m"
| "productMap_set m (p # ps) =
     (let key = product_key p
      in if key \<noteq> [] then productMap_set (AList.update key p m) ps
         else productMap_set m ps)"

definition uniqueProducts :: "js_product list \<Rightarrow> js_product list" where
  "uniqueProducts products = map snd (productMap_set [] products)"

text \<open>The invariant of the map under construction: every entry sits under its own, non-empty key.\<close>

definition keyed :: "(string \<times> js_product) list \<Rightarrow> bool" where
  "keyed m = (\<forall>x \<in> set m. product_key (snd x) = fst x \<and> fst x \<noteq> [])"

section \<open>The products table\<close>

text \<open>
  A row of \<open>products\<close>. The columns \<open>id\<close>, \<open>name\<close>, \<open>category\<close>, \<open>base_cost\<close>,
  \<open>size\<close> and \<open>source\<close> are declared in 001_initial.sql; the identifier is a generated
  UUID, here a number. Numeric values are the values as the column stores them
  (rounding to the scale of the column is not part of the model).

  Modelled from the spec: the declarations of the columns \<open>weight\<close>, \<open>width\<close>, \<open>height\<close>,
  \<open>length\<close>, \<open>product_sku\<close>, \<open>parent\<close>, \<open>default_custom_shipping\<close> and
  \<open>default_fbm_source\<close> are not among the migrations; the statements name them, and
  they are taken as nullable numeric and text columns without a length limit, as the
  casts of the import (\<open>numeric[]\<close>, \<open>text[]\<close>) and the spec's data model have them.
\<close>

record products_row =
  p_id :: nat
  p_name :: string
  p_category :: "string option"
  p_base_cost :: "rat option"
  p_size :: "rat option"
  p_weight :: "rat option"
  p_width :: "rat option"
  p_height :: "rat option"
  p_length :: "rat option"
  p_source :: "string option"
  p_product_sku :: "string option"
  p_parent :: "string option"
  p_default_custom_shipping :: "rat option"
  p_default_fbm_source :: "string option"

text \<open>A row proposed for insertion: one row of the \<open>UNNEST\<close> of the eleven arrays.\<close>

record excluded_row =
  ex_name :: "string option"
  ex_category :: "string option"
  ex_base_cost :: "rat option"
  ex_size :: "rat option"
  ex_weight :: "rat option"
  ex_width :: "rat option"
  ex_height :: "rat option"
  ex_length :: "rat option"
  ex_source :: "string option"
  ex_product_sku :: "string option"
  ex_parent :: "string option"

text \<open>
  \<open>names = batch.map(p => p.name)\<close>, \<open>categories = batch.map(p => p.category)\<close>,
  \<open>baseCosts = batch.map(p => p.base_cost ?? null)\<close>, \<dots>,
  \<open>sources = batch.map(p => p.source || 'csv')\<close>.
\<close>

definition unnest_row :: "js_product \<Rightarrow> excluded_row" where
  "unnest_row p =
     \<lparr>ex_name = nullish (js_name p),
      ex_category = nullish (js_category p),
      ex_base_cost = nullish (js_base_cost p),
      ex_size = nullish (js_size p),
      ex_weight = nullish (js_weight p),
      ex_width = nullish (js_width p),
      ex_height = nullish (js_height p),
      ex_length = nullish (js_length p),
      ex_source = Some (or_else (js_source p) ''csv''),
      ex_product_sku = nullish (js_product_sku p),
      ex_parent = nullish (js_parent p)\<rparr>"

text \<open>
  The errors the statement of the import raises on the columns declared in
  001_initial.sql; the handler passes their message on. Failures of the connection are
  not represented.
\<close>

datatype db_error = ValueTooLong nat | NotNullViolation | AffectRowTwice

text \<open>
  Assignment to a \<open>VARCHAR(n)\<close> column: a longer string is an error unless the excess
  characters are all spaces, and then it is cut to \<open>n\<close> characters.
\<close>

definition varchar :: "nat \<Rightarrow> string option \<Rightarrow> db_error + string option" where
  "varchar n v =
     (case v of
        None \<Rightarrow> Inr None
      | Some s \<Rightarrow>
          if list_all (\<lambda>c. c = CHR '' '') (drop n s) then Inr (Some (take n s))
          else Inl (ValueTooLong n))"

definition coalesce :: "'a option \<Rightarrow> 'a option \<Rightarrow> 'a option" where
  "coalesce a b = (case a of Some v \<Rightarrow> Some v | None \<Rightarrow> b)"

text \<open>The \<open>DO UPDATE SET\<close> list of the upsert, on the stored row and the proposed one.\<close>

definition do_update :: "products_row \<Rightarrow> excluded_row \<Rightarrow> products_row" where
  "do_update products EXCLUDED =
     products\<lparr>p_category := ex_category EXCLUDED,
       p_base_cost := coalesce (ex_base_cost EXCLUDED) (p_base_cost products),
       p_size := coalesce (ex_size EXCLUDED) (p_size products),
       p_weight := coalesce (ex_weight EXCLUDED) (p_weight products),
       p_width := coalesce (ex_width EXCLUDED) (p_width products),
       p_height := coalesce (ex_height EXCLUDED) (p_height products),
       p_length := coalesce (ex_length EXCLUDED) (p_length products),
       p_product_sku := coalesce (ex_product_sku EXCLUDED) (p_product_sku products),
       p_parent := coalesce (ex_parent EXCLUDED) (p_parent products)\<rparr>"

text \<open>
  The row an insert without conflict stores. The \<open>id\<close> is generated
  (\<open>uuid_generate_v4()\<close>): some identifier no stored row has, here the successor of
  the largest stored one. The columns the statement does not list are NULL.
\<close>

definition fresh_id :: "products_row list \<Rightarrow> nat" where
  "fresh_id db = Suc (fold max (map p_id db) 0)"

definition insert_row :: "nat \<Rightarrow> string \<Rightarrow> excluded_row \<Rightarrow> products_row" where
  "insert_row i n EXCLUDED =
     \<lparr>p_id = i, p_name = n,
      p_category = ex_category EXCLUDED,
      p_base_cost = ex_base_cost EXCLUDED,
      p_size = ex_size EXCLUDED,
      p_weight = ex_weight EXCLUDED,
      p_width = ex_width EXCLUDED,
      p_height = ex_height EXCLUDED,
      p_length = ex_length EXCLUDED,
      p_source = ex_source EXCLUDED,
      p_product_sku = ex_product_sku EXCLUDED,
      p_parent = ex_parent EXCLUDED,
      p_default_custom_shipping = None,
      p_default_fbm_source = None\<rparr>"

text \<open>
  The columns \<open>name VARCHAR(255) NOT NULL UNIQUE\<close>, \<open>category VARCHAR(100)\<close> and
  \<open>source VARCHAR(50)\<close> are checked on every proposed row.
\<close>

definition coerce_row :: "excluded_row \<Rightarrow> db_error + (string \<times> excluded_row)" where
  "coerce_row ex =
     (case varchar 255 (ex_name ex) of
        Inl e \<Rightarrow> Inl e
      | Inr name \<Rightarrow>
     (case varchar 100 (ex_category ex) of
        Inl e \<Rightarrow> Inl e
      | Inr category \<Rightarrow>
     (case varchar 50 (ex_source ex) of
        Inl e \<Rightarrow> Inl e
      | Inr source \<Rightarrow>
     (case name of
        None \<Rightarrow> Inl NotNullViolation
      | Some n \<Rightarrow> Inr (n, ex\<lparr>ex_name := name, ex_category := category, ex_source := source\<rparr>)))))"

text \<open>
  One \<open>INSERT \<dots> ON CONFLICT (name) DO UPDATE \<dots> RETURNING (xmax = 0) AS is_insert\<close>.
  The rows are taken in order; \<open>touched\<close> holds the names this statement has written,
  and a second proposal for one of them is the error "ON CONFLICT DO UPDATE command
  cannot affect row a second time". The result is the table and one \<open>is_insert\<close> flag
  per row; an error leaves the table as it was (the statement is atomic).
\<close>

fun upsert_rows ::
  "products_row list \<Rightarrow> string list \<Rightarrow> excluded_row list \<Rightarrow> db_error + (products_row list \<times> bool list)" where
  "upsert_rows db touched [] = Inr (db, [])"
| "upsert_rows db touched (ex # exs) =
     (case coerce_row ex of
        Inl e \<Rightarrow> Inl e
      | Inr (n, ex') \<Rightarrow>
          if n \<in> set touched then Inl AffectRowTwice
          else if \<exists>r \<in> set db. p_name r = n then
            (case upsert_rows (map (\<lambda>r. if p_name r = n then do_update r ex' else r) db) (n # touched) exs of
               Inl e \<Rightarrow> Inl e
             | Inr (db', flags) \<Rightarrow> Inr (db', False # flags))
          else
            (case upsert_rows (db @ [insert_row (fresh_id db) n ex']) (n # touched) exs of
               Inl e \<Rightarrow> Inl e
             | Inr (db', flags) \<Rightarrow> Inr (db', True # flags)))"

definition query_upsert ::
  "products_row list \<Rightarrow> excluded_row list \<Rightarrow> db_error + (products_row list \<times> bool list)" where
  "query_upsert db rows = upsert_rows db [] rows"

section \<open>Bulk product import: the handler\<close>

definition BATCH_SIZE :: nat where
  "BATCH_SIZE = 500"

text \<open>\<open>xs.slice(i, j)\<close> for \<open>0 \<le> i \<le> j\<close>.\<close>

definition slice :: "'a list \<Rightarrow> nat \<Rightarrow> nat \<Rightarrow> 'a list" where
  "slice xs i j = take (j - i) (drop i xs)"

text \<open>
  The chunk loop. Every statement commits on its own, so the table a failing chunk
  leaves behind is the one after the chunks before it.
\<close>

function bulk_loop ::
  "products_row list \<Rightarrow> js_product list \<Rightarrow> nat \<Rightarrow> nat \<Rightarrow> nat \<Rightarrow>
   products_row list \<times> (db_error + nat \<times> nat)" where
  "bulk_loop db uniq i totalAdded totalUpdated =
     (if i < length uniq then
        (let batch = slice uniq i (i + BATCH_SIZE)
         in case query_upsert db (map unnest_row batch) of
              Inl e \<Rightarrow> (db, Inl e)
            | Inr (db', result) \<Rightarrow>
                (let inserted = length (filter (\<lambda>is_insert. is_insert) result)
                 in bulk_loop db' uniq (i + BATCH_SIZE)
                      (totalAdded + inserted) (totalUpdated + (length result - inserted))))
      else (db, Inr (totalAdded, totalUpdated)))"
  by pat_completeness auto
termination
  by (relation "measure (\<lambda>(db, uniq, i, a, u). length uniq - i)") (auto simp: BATCH_SIZE_def)

datatype response =
    Status400
  | Status200 nat nat
  | Status201 nat nat
  | Status500 db_error

text \<open>
  \<open>POST /bulk\<close>: the body's \<open>products\<close> is \<open>None\<close> when it is not an array. The
  results carry \<open>added\<close> and \<open>updated\<close>; the 500 carries the error's message only.
\<close>

definition bulk :: "products_row list \<Rightarrow> js_product list option \<Rightarrow> products_row list \<times> response" where
  "bulk db body =
     (case body of
        None \<Rightarrow> (db, Status400)
      | Some products \<Rightarrow>
          if length products = 0 then (db, Status200 0 0)
          else (case bulk_loop db (uniqueProducts products) 0 0 0 of
                  (db', Inl e) \<Rightarrow> (db', Status500 e)
                | (db', Inr (totalAdded, totalUpdated)) \<Rightarrow> (db', Status201 totalAdded totalUpdated)))"

text \<open>A request record with a name and a cost, every other property absent.\<close>

definition widget :: "string \<Rightarrow> rat js \<Rightarrow> js_product" where
  "widget n c =
     \<lparr>js_name = Val n, js_category = Undefined, js_base_cost = c, js_size = Undefined,
      js_weight = Undefined, js_width = Undefined, js_height = Undefined, js_length = Undefined,
      js_source = Undefined, js_product_sku = Undefined, js_parent = Undefined\<rparr>"

section \<open>The sku_master table and the mappings\<close>

text \<open>
  Modelled from the spec: the \<open>CREATE TABLE\<close> of \<open>sku_master\<close> is not among the
  migrations; the statements name its columns and the spec gives its uniqueness over
  (\<open>sku\<close>, \<open>marketplace\<close>, \<open>country_code\<close>), which the \<open>ON CONFLICT\<close> clauses rely on.
  The three key columns are taken to be NOT NULL. Timestamps and the generated \<open>id\<close>
  are left out.
\<close>

record sku_master_row =
  sm_sku :: string
  sm_marketplace :: string
  sm_country_code :: string
  sm_asin :: "string option"
  sm_iwasku :: "string option"
  sm_name :: "string option"
  sm_parent :: "string option"
  sm_category :: "string option"
  sm_cost :: "rat option"
  sm_size :: "rat option"
  sm_custom_shipping :: "rat option"
  sm_fbm_source :: "string option"
  sm_fulfillment :: "string option"

text \<open>
  A row of \<open>marketplace_product_data\<close>: \<open>product_id\<close> is a nullable reference,
  \<open>country_code\<close> is NOT NULL, \<open>sku\<close> and \<open>asin\<close> are nullable.
\<close>

record mpd_row =
  mpd_product_id :: "nat option"
  mpd_sku :: "string option"
  mpd_country_code :: string
  mpd_asin :: "string option"

text \<open>The conflict target \<open>(sku, marketplace, country_code)\<close>.\<close>

definition conflicts :: "sku_master_row list \<Rightarrow> string \<Rightarrow> string \<Rightarrow> string \<Rightarrow> bool" where
  "conflicts sms sku marketplace country_code =
     (\<exists>sm \<in> set sms. sm_sku sm = sku \<and> sm_marketplace sm = marketplace \<and>
        sm_country_code sm = country_code)"

section \<open>The Missing-Reference Ingester\<close>

text \<open>One element of \<open>req.body.skus\<close> in \<open>POST /mapping/amazon-analyzer/missing\<close>.\<close>

record sku_info =
  si_sku :: "string js"
  si_asin :: "string js"
  si_name :: "string js"
  si_marketplace :: "string js"
  si_category :: "string js"
  si_fulfillment :: "string js"

text \<open>A string is truthy when it is there and not empty.\<close>

fun truthy :: "string js \<Rightarrow> bool" where
  "truthy (Val s) = (s \<noteq> [])"
| "truthy _ = False"

text \<open>\<open>x || null\<close>\<close>

fun or_null :: "string js \<Rightarrow> string option" where
  "or_null (Val s) = (if s = [] then None else Some s)"
| "or_null _ = None"

text \<open>
  The row of \<open>VALUES ($1, 'amazon', $2, $3, $4, $5, $6)\<close> with the parameters
  \<open>[sku, marketplace, asin || null, name || sku, category || 'Unknown', fulfillment || null]\<close>;
  the columns not listed are NULL.
\<close>

definition placeholder :: "sku_info \<Rightarrow> sku_master_row" where
  "placeholder skuInfo =
     \<lparr>sm_sku = or_else (si_sku skuInfo) [],
      sm_marketplace = ''amazon'',
      sm_country_code = or_else (si_marketplace skuInfo) [],
      sm_asin = or_null (si_asin skuInfo),
      sm_iwasku = None,
      sm_name = Some (or_else (si_name skuInfo) (or_else (si_sku skuInfo) [])),
      sm_parent = None,
      sm_category = Some (or_else (si_category skuInfo) ''Unknown''),
      sm_cost = None,
      sm_size = None,
      sm_custom_shipping = None,
      sm_fbm_source = None,
      sm_fulfillment = or_null (si_fulfillment skuInfo)\<rparr>"

text \<open>
  \<open>INSERT \<dots> ON CONFLICT (sku, marketplace, country_code) DO NOTHING RETURNING id\<close>:
  the table and the number of rows returned.
\<close>

definition insert_do_nothing :: "sku_master_row list \<Rightarrow> sku_master_row \<Rightarrow> sku_master_row list \<times> nat" where
  "insert_do_nothing sms row =
     (if conflicts sms (sm_sku row) (sm_marketplace row) (sm_country_code row) then (sms, 0)
      else (sms @ [row], 1))"

fun missing_loop ::
  "sku_master_row list \<Rightarrow> sku_info list \<Rightarrow> nat \<Rightarrow> nat \<Rightarrow> sku_master_row list \<times> nat \<times> nat" where
  "missing_loop sms [] added skipped = (sms, added, skipped)"
| "missing_loop sms (skuInfo # rest) added skipped =
     (if \<not> truthy (si_sku skuInfo) \<or> \<not> truthy (si_marketplace skuInfo) then
        missing_loop sms rest added (skipped + 1)
      else
        (case insert_do_nothing sms (placeholder skuInfo) of
           (sms', result) \<Rightarrow>
             if result > 0 then missing_loop sms' rest (added + 1) skipped
             else missing_loop sms' rest added (skipped + 1)))"

record missing_data =
  md_added :: nat
  md_skipped :: nat
  md_total :: nat

text \<open>The handler: \<open>None\<close> is the status 400 for a body whose \<open>skus\<close> is not an array.\<close>

definition missing :: "sku_master_row list \<Rightarrow> sku_info list option \<Rightarrow> sku_master_row list \<times> missing_data option" where
  "missing sms body =
     (case body of
        None \<Rightarrow> (sms, None)
      | Some skus \<Rightarrow>
          (case missing_loop sms skus 0 0 of
             (sms', added, skipped) \<Rightarrow>
               (sms', Some \<lparr>md_added = added, md_skipped = skipped, md_total = length skus\<rparr>)))"

section \<open>The Reconciliation Synchronizer\<close>

text \<open>\<open>FROM marketplace_product_data mpd JOIN products p ON mpd.product_id = p.id\<close>\<close>

definition mpd_join_products :: "mpd_row list \<Rightarrow> products_row list \<Rightarrow> (mpd_row \<times> products_row) list" where
  "mpd_join_products mpds ps =
     concat (map (\<lambda>mpd. map (Pair mpd) (filter (\<lambda>p. mpd_product_id mpd = Some (p_id p)) ps)) mpds)"

text \<open>The \<open>SET\<close> list of the update.\<close>

definition sync_set :: "products_row \<Rightarrow> sku_master_row \<Rightarrow> sku_master_row" where
  "sync_set p sm =
     sm\<lparr>sm_name := Some (p_name p),
       sm_parent := coalesce (p_parent p) (p_product_sku p),
       sm_category := p_category p,
       sm_cost := p_base_cost p,
       sm_size := p_size p,
       sm_custom_shipping := p_default_custom_shipping p,
       sm_fbm_source := p_default_fbm_source p\<rparr>"

text \<open>
  \<open>WHERE sm.sku = mpd.sku AND sm.country_code = mpd.country_code AND sm.marketplace = 'amazon'\<close>.
  A NULL \<open>mpd.sku\<close> matches nothing.
\<close>

definition update_match :: "sku_master_row \<Rightarrow> mpd_row \<times> products_row \<Rightarrow> bool" where
  "update_match sm j =
     (mpd_sku (fst j) = Some (sm_sku sm) \<and> mpd_country_code (fst j) = sm_country_code sm \<and>
      sm_marketplace sm = ''amazon'')"

text \<open>
  \<open>UPDATE sku_master sm SET \<dots> FROM \<dots>\<close>: a row with several matching join rows is
  updated from one of them only; the model takes the first in the order of the join.
\<close>

definition sync_update :: "(mpd_row \<times> products_row) list \<Rightarrow> sku_master_row list \<Rightarrow> sku_master_row list" where
  "sync_update js sms =
     map (\<lambda>sm. case find (update_match sm) js of
                 Some j \<Rightarrow> sync_set (snd j) sm
               | None \<Rightarrow> sm) sms"

text \<open>The \<open>SELECT\<close> list of the insert.\<close>

definition sync_row :: "string \<Rightarrow> mpd_row \<Rightarrow> products_row \<Rightarrow> sku_master_row" where
  "sync_row sku mpd p =
     \<lparr>sm_sku = sku,
      sm_marketplace = ''amazon'',
      sm_country_code = mpd_country_code mpd,
      sm_asin = mpd_asin mpd,
      sm_iwasku = p_product_sku p,
      sm_name = Some (p_name p),
      sm_parent = coalesce (p_parent p) (p_product_sku p),
      sm_category = p_category p,
      sm_cost = p_base_cost p,
      sm_size = p_size p,
      sm_custom_shipping = p_default_custom_shipping p,
      sm_fbm_source = p_default_fbm_source p,
      sm_fulfillment = None\<rparr>"

text \<open>
  \<open>INSERT \<dots> SELECT \<dots> WHERE mpd.sku IS NOT NULL AND mpd.sku != ''
  ON CONFLICT (sku, marketplace, country_code) DO NOTHING RETURNING id\<close>: the join rows
  in order, each one inserted unless its key is in the table by then; the result is
  the table and the number of rows returned.
\<close>

fun sync_insert :: "sku_master_row list \<Rightarrow> (mpd_row \<times> products_row) list \<Rightarrow> sku_master_row list \<times> nat" where
  "sync_insert sms [] = (sms, 0)"
| "sync_insert sms (j # js) =
     (case mpd_sku (fst j) of
        None \<Rightarrow> sync_insert sms js
      | Some sku \<Rightarrow>
          if sku = [] then sync_insert sms js
          else (case insert_do_nothing sms (sync_row sku (fst j) (snd j)) of
                  (sms', n) \<Rightarrow> (case sync_insert sms' js of (sms'', k) \<Rightarrow> (sms'', n + k))))"

record sync_data =
  sd_updated :: nat
  sd_inserted :: nat
  sd_total :: nat
  sd_withCost :: nat
  sd_withSize :: nat

text \<open>
  \<open>POST /mapping/amazon-analyzer/sync\<close>. \<open>query\<close> returns the statement's rows, an empty
  array for the update, so \<open>(updateResult as any).rowCount || updateResult.length || 0\<close>
  is 0. The statistics count the rows with \<open>marketplace = 'amazon'\<close>.
\<close>

definition sync :: "products_row list \<Rightarrow> mpd_row list \<Rightarrow> sku_master_row list \<Rightarrow> sku_master_row list \<times> sync_data" where
  "sync products mpds sms =
     (let js = mpd_join_products mpds products;
          updated = sync_update js sms
      in case sync_insert updated js of
           (sms', insertResult) \<Rightarrow>
             (let stats = filter (\<lambda>sm. sm_marketplace sm = ''amazon'') sms'
              in (sms',
                  \<lparr>sd_updated = 0,
                   sd_inserted = insertResult,
                   sd_total = length stats,
                   sd_withCost = length (filter (\<lambda>sm. sm_cost sm \<noteq> None) stats),
                   sd_withSize = length (filter (\<lambda>sm. sm_size sm \<noteq> None) stats)\<rparr>)))"

text \<open>The guard \<open>if (!sku || !marketplace)\<close> passed, and the key the insert would take.\<close>

definition valid_entry :: "sku_info \<Rightarrow> bool" where
  "valid_entry skuInfo = (truthy (si_sku skuInfo) \<and> truthy (si_marketplace skuInfo))"

definition key_exists :: "sku_master_row list \<Rightarrow> sku_info \<Rightarrow> bool" where
  "key_exists sms skuInfo =
     conflicts sms (or_else (si_sku skuInfo) []) ''amazon'' (or_else (si_marketplace skuInfo) [])"

text \<open>\<open>COALESCE(p.parent, p.product_sku)\<close> written out.\<close>

definition parent_or_sku :: "products_row \<Rightarrow> string option" where
  "parent_or_sku p = (case p_parent p of Some parent \<Rightarrow> Some parent | None \<Rightarrow> p_product_sku p)"

text \<open>Every mapping with a non-empty SKU has its key in the table.\<close>

definition covered :: "sku_master_row list \<Rightarrow> (mpd_row \<times> products_row) list \<Rightarrow> bool" where
  "covered sms js =
     (\<forall>j \<in> set js. case mpd_sku (fst j) of
        None \<Rightarrow> True
      | Some sku \<Rightarrow> sku = [] \<or> conflicts sms sku ''amazon'' (mpd_country_code (fst j)))"

text \<open>A row as the insert writes it from the first join row that matches it.\<close>

definition backfilled :: "(mpd_row \<times> products_row) list \<Rightarrow> sku_master_row \<Rightarrow> bool" where
  "backfilled js sm =
     (case find (update_match sm) js of
        None \<Rightarrow> False
      | Some j \<Rightarrow> sm = sync_row (sm_sku sm) (fst j) (snd j))"


text \<open>The response data, from the final table and the number of rows the insert returned.\<close>

definition stats_of :: "sku_master_row list \<Rightarrow> nat \<Rightarrow> sync_data" where
  "stats_of sms' insertResult =
     (let stats = filter (\<lambda>sm. sm_marketplace sm = ''amazon'') sms'
      in \<lparr>sd_updated = 0,
          sd_inserted = insertResult,
          sd_total = length stats,
          sd_withCost = length (filter (\<lambda>sm. sm_cost sm \<noteq> None) stats),
          sd_withSize = length (filter (\<lambda>sm. sm_size sm \<noteq> None) stats)\<rparr>)"

text \<open>The scenario data: a product without parent, a mapping to it, the row a sync derives, and a stale row.\<close>

definition product_PX1 :: products_row where
  "product_PX1 =
     \<lparr>p_id = 1, p_name = ''Product X'', p_category = Some ''Toys'', p_base_cost = Some 5,
      p_size = None, p_weight = None, p_width = None, p_height = None, p_length = None,
      p_source = Some ''csv'', p_product_sku = Some ''PX1'', p_parent = None,
      p_default_custom_shipping = None, p_default_fbm_source = None\<rparr>"

definition mapping_X1 :: mpd_row where
  "mapping_X1 = \<lparr>mpd_product_id = Some 1, mpd_sku = Some ''X1'', mpd_country_code = ''US'', mpd_asin = None\<rparr>"

definition row_X1 :: sku_master_row where
  "row_X1 =
     \<lparr>sm_sku = ''X1'', sm_marketplace = ''amazon'', sm_country_code = ''US'', sm_asin = None,
      sm_iwasku = Some ''PX1'', sm_name = Some ''Product X'', sm_parent = Some ''PX1'',
      sm_category = Some ''Toys'', sm_cost = Some 5, sm_size = None, sm_custom_shipping = None,
      sm_fbm_source = None, sm_fulfillment = None\<rparr>"

definition stale_X1 :: sku_master_row where
  "stale_X1 = row_X1\<lparr>sm_name := Some ''old name'', sm_parent := Some ''OLD'', sm_cost := None\<rparr>"

text \<open>The key of a row of \<open>sku_master\<close>.\<close>

definition sm_key :: "sku_master_row \<Rightarrow> string \<times> string \<times> string" where
  "sm_key sm = (sm_sku sm, sm_marketplace sm, sm_country_code sm)"

text \<open>The scenario data: the entry \<open>{sku: "M1", marketplace: "amazon"}\<close> and a fuller one.\<close>

definition entry_M1 :: sku_info where
  "entry_M1 =
     \<lparr>si_sku = Val ''M1'', si_asin = Undefined, si_name = Undefined, si_marketplace = Val ''amazon'',
      si_category = Undefined, si_fulfillment = Undefined\<rparr>"

definition entry_M2 :: sku_info where
  "entry_M2 =
     \<lparr>si_sku = Val ''M2'', si_asin = Val ''B000000001'', si_name = Val ''Mug'', si_marketplace = Val ''US'',
      si_category = Val ''Kitchen'', si_fulfillment = Val ''FBA''\<rparr>"

section \<open>Bulk product import: the loop over its chunks\<close>

text \<open>The slices the loop takes, in order.\<close>

function chunks :: "nat \<Rightarrow> 'a list \<Rightarrow> 'a list list" where
  "chunks n xs = (if n = 0 \<or> xs = [] then [] else take n xs # chunks n (drop n xs))"
  by pat_completeness auto
termination
  by (relation "measure (\<lambda>(n, xs). length xs)") auto

text \<open>The body of the loop, run over a list of chunks.\<close>

fun run_chunks ::
  "products_row list \<Rightarrow> js_product list list \<Rightarrow> nat \<Rightarrow> nat \<Rightarrow>
   products_row list \<times> (db_error + nat \<times> nat)" where
  "run_chunks db [] totalAdded totalUpdated = (db, Inr (totalAdded, totalUpdated))"
| "run_chunks db (batch # rest) totalAdded totalUpdated =
     (case query_upsert db (map unnest_row batch) of
        Inl e \<Rightarrow> (db, Inl e)
      | Inr (db', result) \<Rightarrow>
          (let inserted = length (filter (\<lambda>is_insert. is_insert) result)
           in run_chunks db' rest (totalAdded + inserted) (totalUpdated + (length result - inserted))))"

text \<open>The counts a response carries: those of the two success responses, none otherwise.\<close>

fun reported_counts :: "response \<Rightarrow> (nat \<times> nat) option" where
  "reported_counts (Status200 a u) = Some (a, u)"
| "reported_counts (Status201 a u) = Some (a, u)"
| "reported_counts _ = None"

text \<open>
  The scenario data: a stored product, the row after the import of
  \<open>{name: "Widget A", base_cost: 5}\<close>, and the row the import of
  \<open>[{name: "Widget A"}, {name: "widget a ", base_cost: 5}]\<close> stores.
\<close>

definition stored_widget :: products_row where
  "stored_widget =
     \<lparr>p_id = 1, p_name = ''Widget A'', p_category = Some ''Toys'', p_base_cost = Some 3,
      p_size = Some 2, p_weight = None, p_width = None, p_height = None, p_length = None,
      p_source = Some ''manual'', p_product_sku = Some ''W-A'', p_parent = None,
      p_default_custom_shipping = None, p_default_fbm_source = None\<rparr>"

definition merged_widget :: products_row where
  "merged_widget = stored_widget\<lparr>p_category := None, p_base_cost := Some 5\<rparr>"

definition widget_row :: products_row where
  "widget_row =
     \<lparr>p_id = 1, p_name = ''widget a '', p_category = None, p_base_cost = Some 5,
      p_size = None, p_weight = None, p_width = None, p_height = None, p_length = None,
      p_source = Some ''csv'', p_product_sku = None, p_parent = None,
      p_default_custom_shipping = None, p_default_fbm_source = None\<rparr>"

text \<open>
  A batch of 501 products with distinct names: 500 names of at most 250 characters,
  then one of 256 characters, which \<open>VARCHAR(255)\<close> rejects.
\<close>

definition first_chunk :: "js_product list" where
  "first_chunk =
     map (\<lambda>i. widget (replicate (Suc i) CHR ''a'') Undefined) [0..<250] @
     map (\<lambda>i. widget (replicate (Suc i) CHR ''b'') Undefined) [0..<250]"

definition long_name_product :: js_product where
  "long_name_product = widget (replicate 256 CHR ''c'') Undefined"

definition two_chunk_batch :: "js_product list" where
  "two_chunk_batch = first_chunk @ [long_name_product]"

section \<open>Properties of the deduplication\<close>

lemma set_update_subset: "set (AList.update k v m) \<subseteq> insert (k, v) (set m)"
  by (induction m) auto

lemma update_fresh_key: "k \<notin> fst ` set m \<Longrightarrow> AList.update k v m = m @ [(k, v)]"
  by (induction m) auto

lemma productMap_set_append:
  "productMap_set m (xs @ ys) = productMap_set (productMap_set m xs) ys"
  by (induction xs arbitrary: m) (simp_all add: Let_def)

lemma map_of_productMap_set:
  "map_of (productMap_set [] ps) k =
     (if k = [] then None else find (\<lambda>p. product_key p = k) (rev ps))"
proof (induction ps rule: rev_induct)
  case Nil
  show ?case by simp
next
  case (snoc p ps)
  show ?case
  proof (cases "product_key p = k \<and> k \<noteq> []")
    case True
    then show ?thesis
      by (simp add: productMap_set_append Let_def update_conv')
  next
    case False
    then show ?thesis
      using snoc.IH by (auto simp add: productMap_set_append Let_def update_conv')
  qed
qed

lemma distinct_productMap_set:
  "distinct (map fst m) \<Longrightarrow> distinct (map fst (productMap_set m ps))"
  by (induction ps arbitrary: m) (auto simp: Let_def distinct_update)

lemma keyed_update: "keyed m \<Longrightarrow> product_key p \<noteq> [] \<Longrightarrow> keyed (AList.update (product_key p) p m)"
proof -
  assume m: "keyed m" and p: "product_key p \<noteq> []"
  have sub: "set (AList.update (product_key p) p m) \<subseteq> insert (product_key p, p) (set m)"
    by (rule set_update_subset)
  show ?thesis
    unfolding keyed_def
  proof
    fix x assume "x \<in> set (AList.update (product_key p) p m)"
    with sub have "x = (product_key p, p) \<or> x \<in> set m" by blast
    then show "product_key (snd x) = fst x \<and> fst x \<noteq> []"
      using m p by (auto simp: keyed_def)
  qed
qed

lemma productMap_set_keyed: "keyed m \<Longrightarrow> keyed (productMap_set m ps)"
  by (induction ps arbitrary: m) (simp_all add: Let_def keyed_update)

lemma keyed_Nil: "keyed []"
  by (simp add: keyed_def)

lemma keyed_map_snd: "keyed m \<Longrightarrow> map product_key (map snd m) = map fst m"
  by (simp add: keyed_def)

lemma productMap_set_distinct_input:
  "distinct (map product_key xs) \<Longrightarrow> \<forall>x \<in> set xs. product_key x \<noteq> [] \<Longrightarrow>
   product_key ` set xs \<inter> fst ` set m = {} \<Longrightarrow>
   productMap_set m xs = m @ map (\<lambda>p. (product_key p, p)) xs"
proof (induction xs arbitrary: m)
  case Nil
  show ?case by simp
next
  case (Cons x xs)
  have fresh: "product_key x \<notin> fst ` set m" using Cons.prems(3) by auto
  have "product_key ` set xs \<inter> fst ` set (m @ [(product_key x, x)]) = {}"
    using Cons.prems by auto
  then have "productMap_set (m @ [(product_key x, x)]) xs =
      (m @ [(product_key x, x)]) @ map (\<lambda>p. (product_key p, p)) xs"
    using Cons.prems by (intro Cons.IH) auto
  then show ?case
    using Cons.prems(2) by (simp add: Let_def update_fresh_key [OF fresh])
qed

lemma uniqueProducts_keys: "map product_key (uniqueProducts ps) = map fst (productMap_set [] ps)"
  unfolding uniqueProducts_def
  by (rule keyed_map_snd) (rule productMap_set_keyed [OF keyed_Nil])

lemma uniqueProducts_distinct: "distinct (map product_key (uniqueProducts ps))"
  by (simp add: uniqueProducts_keys distinct_productMap_set)

lemma uniqueProducts_nonempty: "p \<in> set (uniqueProducts ps) \<Longrightarrow> product_key p \<noteq> []"
proof -
  assume "p \<in> set (uniqueProducts ps)"
  then obtain x where x: "x \<in> set (productMap_set [] ps)" "p = snd x"
    by (auto simp: uniqueProducts_def)
  have "keyed (productMap_set [] ps)"
    by (rule productMap_set_keyed [OF keyed_Nil])
  with x show ?thesis by (simp add: keyed_def)
qed

lemma uniqueProducts_member:
  "p \<in> set (uniqueProducts ps) \<longleftrightarrow>
   product_key p \<noteq> [] \<and> find (\<lambda>q. product_key q = product_key p) (rev ps) = Some p"
proof -
  have k: "keyed (productMap_set [] ps)"
    by (rule productMap_set_keyed [OF keyed_Nil])
  have dist: "distinct (map fst (productMap_set [] ps))"
    by (rule distinct_productMap_set) simp
  have "p \<in> set (uniqueProducts ps) \<longleftrightarrow> (product_key p, p) \<in> set (productMap_set [] ps)"
  proof
    assume "p \<in> set (uniqueProducts ps)"
    then obtain x where x: "x \<in> set (productMap_set [] ps)" "p = snd x"
      by (auto simp: uniqueProducts_def)
    with k have "fst x = product_key p" by (simp add: keyed_def)
    with x(2) have "x = (product_key p, p)" by (simp add: prod_eq_iff)
    with x(1) show "(product_key p, p) \<in> set (productMap_set [] ps)"
      by simp
  next
    assume "(product_key p, p) \<in> set (productMap_set [] ps)"
    then show "p \<in> set (uniqueProducts ps)"
      unfolding uniqueProducts_def by (metis snd_conv image_eqI set_map)
  qed
  also have "\<dots> \<longleftrightarrow> map_of (productMap_set [] ps) (product_key p) = Some p"
    using dist by simp
  also have "\<dots> \<longleftrightarrow> product_key p \<noteq> [] \<and> find (\<lambda>q. product_key q = product_key p) (rev ps) = Some p"
    by (simp add: map_of_productMap_set)
  finally show ?thesis .
qed

lemma find_keyed: "keyed m \<Longrightarrow> find (\<lambda>q. product_key q = k) (map snd m) = map_of m k"
proof (induction m)
  case Nil
  show ?case by simp
next
  case (Cons x m)
  then have "keyed m" and "product_key (snd x) = fst x"
    by (simp_all add: keyed_def)
  with Cons.IH show ?case
    by (cases x) auto
qed

lemma find_uniqueProducts:
  "find (\<lambda>q. product_key q = k) (uniqueProducts ps) =
     (if k = [] then None else find (\<lambda>q. product_key q = k) (rev ps))"
  unfolding uniqueProducts_def
  by (simp only: find_keyed [OF productMap_set_keyed [OF keyed_Nil]] map_of_productMap_set)

lemma uniqueProducts_idem: "uniqueProducts (uniqueProducts ps) = uniqueProducts ps"
proof -
  let ?us = "uniqueProducts ps"
  have "productMap_set [] ?us = [] @ map (\<lambda>p. (product_key p, p)) ?us"
    by (rule productMap_set_distinct_input)
      (auto simp: uniqueProducts_distinct uniqueProducts_nonempty)
  then show ?thesis
    by (simp add: uniqueProducts_def [of ?us] comp_def)
qed

section \<open>The claims about the deduplication\<close>

text \<open>
  C7. In the output of the deduplication no two records have the same canonical key
  (the name, lower-cased and trimmed), the record found there under a key is the last
  record of the input with that key, and no record with the empty key is in the output.
\<close>

theorem C7_dedup_last_occurrence_wins:
  "distinct (map product_key (uniqueProducts products)) \<and>
   find (\<lambda>q. product_key q = k) (uniqueProducts products) =
     (if k = [] then None else find (\<lambda>q. product_key q = k) (rev products))"
  by (simp only: uniqueProducts_distinct find_uniqueProducts simp_thms)

theorem C7_dedup_witness:
  "product_key (widget ''Widget A'' Undefined) = ''widget a'' \<and>
   product_key (widget ''widget a '' (Val 5)) = ''widget a'' \<and>
   find (\<lambda>q. product_key q = ''widget a'')
     (uniqueProducts [widget ''Widget A'' Undefined, widget ''widget a '' (Val 5), widget '' '' Null])
     = Some (widget ''widget a '' (Val 5)) \<and>
   find (\<lambda>q. product_key q = [])
     (uniqueProducts [widget ''Widget A'' Undefined, widget ''widget a '' (Val 5), widget '' '' Null])
     = None"
  using C7_dedup_last_occurrence_wins
    [of "[widget ''Widget A'' Undefined, widget ''widget a '' (Val 5), widget '' '' Null]" "''widget a''"]
    C7_dedup_last_occurrence_wins
    [of "[widget ''Widget A'' Undefined, widget ''widget a '' (Val 5), widget '' '' Null]" "[]"]
  by (simp add: product_key_def widget_def trim_def toLowerCase_def lower_char_def is_space_def)

text \<open>
  C8. Deduplicating the output of the deduplication gives that output again.
\<close>

theorem C8_dedup_idempotent:
  "uniqueProducts (uniqueProducts products) = uniqueProducts products"
  by (rule uniqueProducts_idem)

lemma conflicts_append: "conflicts sms a b c \<Longrightarrow> conflicts (sms @ new) a b c"
  by (auto simp: conflicts_def)

lemma covered_append: "covered sms js \<Longrightarrow> covered (sms @ new) js"
  unfolding covered_def
  by (fastforce simp: conflicts_append split: option.splits)

lemma update_match_sync_set [simp]: "update_match (sync_set p sm) = update_match sm"
  by (simp add: fun_eq_iff update_match_def sync_set_def)

lemma sync_set_idem [simp]: "sync_set p (sync_set p sm) = sync_set p sm"
  by (simp add: sync_set_def)

lemma sync_set_sync_row [simp]: "sync_set p (sync_row sku mpd p) = sync_row sku mpd p"
  by (simp add: sync_set_def sync_row_def)

lemma update_match_sync_row:
  "update_match (sync_row sku mpd p) j \<longleftrightarrow>
     mpd_sku (fst j) = Some sku \<and> mpd_country_code (fst j) = mpd_country_code mpd"
  by (simp add: update_match_def sync_row_def)



lemma length_sync_update [simp]: "length (sync_update js sms) = length sms"
  by (simp add: sync_update_def)

lemma coveredD:
  "covered sms js \<Longrightarrow> j \<in> set js \<Longrightarrow> mpd_sku (fst j) = Some sku \<Longrightarrow> sku \<noteq> [] \<Longrightarrow>
   conflicts sms sku ''amazon'' (mpd_country_code (fst j))"
  by (fastforce simp: covered_def)


lemma covered_snoc:
  "covered sms (js @ [j]) \<longleftrightarrow>
     covered sms js \<and>
     (case mpd_sku (fst j) of None \<Rightarrow> True
      | Some sku \<Rightarrow> sku = [] \<or> conflicts sms sku ''amazon'' (mpd_country_code (fst j)))"
  by (auto simp: covered_def)


lemma find_append_None: "find P xs = None \<Longrightarrow> find P (xs @ ys) = find P ys"
  by (induction xs) (auto split: if_splits)

lemma sync_insert_new:
  "covered sms js1 \<Longrightarrow>
   \<exists>new. fst (sync_insert sms js2) = sms @ new \<and> length new = snd (sync_insert sms js2) \<and>
     (\<forall>r \<in> set new. backfilled (js1 @ js2) r) \<and>
     covered (sms @ new) (js1 @ js2)"
proof (induction js2 arbitrary: sms js1)
  case Nil
  then show ?case by (intro exI [of _ "[]"]) simp
next
  case (Cons j js2)
  let ?skip = "case mpd_sku (fst j) of None \<Rightarrow> True
     | Some sku \<Rightarrow> sku = [] \<or> conflicts sms sku ''amazon'' (mpd_country_code (fst j))"
  show ?case
  proof (cases ?skip)
    case True
    then have eq: "sync_insert sms (j # js2) = sync_insert sms js2"
      by (auto simp: insert_do_nothing_def sync_row_def split: option.splits)
    from True Cons.prems have "covered sms (js1 @ [j])"
      by (simp add: covered_snoc)
    from Cons.IH [OF this] show ?thesis
      unfolding eq by simp
  next
    case False
    then obtain sku where sku: "mpd_sku (fst j) = Some sku" "sku \<noteq> []"
      and nc: "\<not> conflicts sms sku ''amazon'' (mpd_country_code (fst j))"
      by (auto split: option.splits)
    let ?r = "sync_row sku (fst j) (snd j)"
    have eq: "sync_insert sms (j # js2) =
        (fst (sync_insert (sms @ [?r]) js2), Suc (snd (sync_insert (sms @ [?r]) js2)))"
      using sku nc
      by (simp add: insert_do_nothing_def sync_row_def split: prod.splits)
    have "conflicts (sms @ [?r]) sku ''amazon'' (mpd_country_code (fst j))"
      by (simp add: conflicts_def sync_row_def)
    with Cons.prems sku have cov: "covered (sms @ [?r]) (js1 @ [j])"
      by (simp add: covered_snoc covered_append)
    from Cons.IH [OF cov] obtain new where
      new: "fst (sync_insert (sms @ [?r]) js2) = (sms @ [?r]) @ new"
        "length new = snd (sync_insert (sms @ [?r]) js2)"
        "\<forall>r \<in> set new. backfilled ((js1 @ [j]) @ js2) r"
        "covered ((sms @ [?r]) @ new) ((js1 @ [j]) @ js2)"
      by blast
    have none: "find (update_match ?r) js1 = None"
    proof (rule ccontr)
      assume "find (update_match ?r) js1 \<noteq> None"
      then obtain j' where j': "j' \<in> set js1" "update_match ?r j'"
        by (auto simp: find_None_iff)
      then have "mpd_sku (fst j') = Some sku" "mpd_country_code (fst j') = mpd_country_code (fst j)"
        by (simp_all add: update_match_sync_row)
      with coveredD [OF Cons.prems j'(1) _ sku(2)] nc show False by simp
    qed
    have "update_match ?r j"
      using sku by (simp add: update_match_sync_row)
    then have "find (update_match ?r) (js1 @ j # js2) = Some j"
      using none by (simp add: find_append_None)
    then have first: "backfilled (js1 @ j # js2) ?r"
      by (simp add: backfilled_def sync_row_def)
    show ?thesis
    proof (intro exI [of _ "?r # new"] conjI)
      show "fst (sync_insert sms (j # js2)) = sms @ ?r # new"
        unfolding eq using new(1) by simp
      show "length (?r # new) = snd (sync_insert sms (j # js2))"
        unfolding eq using new(2) by simp
      show "\<forall>r \<in> set (?r # new). backfilled (js1 @ j # js2) r"
        using new(3) first by simp
      show "covered (sms @ ?r # new) (js1 @ j # js2)"
        using new(4) by simp
    qed
  qed
qed


lemma sync_eq:
  "sync products mpds sms =
     (fst (sync_insert (sync_update (mpd_join_products mpds products) sms) (mpd_join_products mpds products)),
      stats_of
        (fst (sync_insert (sync_update (mpd_join_products mpds products) sms) (mpd_join_products mpds products)))
        (snd (sync_insert (sync_update (mpd_join_products mpds products) sms) (mpd_join_products mpds products))))"
  by (simp add: sync_def stats_of_def Let_def split_beta)

lemma sd_inserted_stats_of [simp]: "sd_inserted (stats_of T n) = n"
  by (simp add: stats_of_def Let_def)


lemma sync_decompose:
  "\<exists>new. fst (sync products mpds sms) = sync_update (mpd_join_products mpds products) sms @ new \<and>
     length new = sd_inserted (snd (sync products mpds sms)) \<and>
     (\<forall>r \<in> set new. backfilled (mpd_join_products mpds products) r) \<and>
     covered (fst (sync products mpds sms)) (mpd_join_products mpds products)"
proof -
  let ?js = "mpd_join_products mpds products"
  have "covered (sync_update ?js sms) []" by (simp add: covered_def)
  from sync_insert_new [OF this, of ?js] obtain new where
    "fst (sync_insert (sync_update ?js sms) ?js) = sync_update ?js sms @ new"
    "length new = snd (sync_insert (sync_update ?js sms) ?js)"
    "\<forall>r \<in> set new. backfilled ?js r"
    "covered (sync_update ?js sms @ new) ?js"
    by auto
  then show ?thesis
    by (intro exI [of _ new]) (simp add: sync_eq)
qed




lemma coalesce_parent: "coalesce (p_parent p) (p_product_sku p) = parent_or_sku p"
  by (simp add: coalesce_def parent_or_sku_def)

lemma sm_parent_sync_set: "sm_parent (sync_set p sm) = parent_or_sku p"
  by (simp add: sync_set_def coalesce_parent)

lemma sm_parent_sync_row: "sm_parent (sync_row sku mpd p) = parent_or_sku p"
  by (simp add: sync_row_def coalesce_parent)

lemma backfilled_parent:
  "backfilled js r \<Longrightarrow> \<exists>j. find (update_match r) js = Some j \<and> sm_parent r = parent_or_sku (snd j)"
proof -
  assume "backfilled js r"
  then obtain j where j: "find (update_match r) js = Some j" "r = sync_row (sm_sku r) (fst j) (snd j)"
    by (auto simp: backfilled_def split: option.splits)
  have "sm_parent (sync_row (sm_sku r) (fst j) (snd j)) = parent_or_sku (snd j)"
    by (rule sm_parent_sync_row)
  with j show ?thesis by simp
qed

lemma conflicts_sync_update [simp]: "conflicts (sync_update js sms) a b c = conflicts sms a b c"
proof -
  have "\<And>sm. sm_sku (case find (update_match sm) js of Some j \<Rightarrow> sync_set (snd j) sm | None \<Rightarrow> sm) = sm_sku sm \<and>
      sm_marketplace (case find (update_match sm) js of Some j \<Rightarrow> sync_set (snd j) sm | None \<Rightarrow> sm) = sm_marketplace sm \<and>
      sm_country_code (case find (update_match sm) js of Some j \<Rightarrow> sync_set (snd j) sm | None \<Rightarrow> sm) = sm_country_code sm"
    by (simp add: sync_set_def split: option.splits)
  then show ?thesis
    by (simp add: conflicts_def sync_update_def)
qed

lemma sync_one_unmatched:
  assumes "mpd_product_id m = Some (p_id p)" and "mpd_sku m = Some x" and "x \<noteq> []"
    and "\<not> conflicts sms x ''amazon'' (mpd_country_code m)"
  shows "fst (sync [p] [m] sms) = sync_update [(m, p)] sms @ [sync_row x m p] \<and>
    sd_inserted (snd (sync [p] [m] sms)) = 1 \<and>
    sm_parent (sync_row x m p) = parent_or_sku p"
  using assms
  by (simp add: sync_eq mpd_join_products_def insert_do_nothing_def sm_parent_sync_row)
    (simp add: sync_row_def)

section \<open>The claims about the Reconciliation Synchronizer\<close>

text \<open>
  C6. After a sync, every row that was in the table and matches a mapping has the parent
  \<open>COALESCE(p.parent, p.product_sku)\<close> of the joined product (the product's parent when it
  is not NULL, else its own SKU code), and every row the sync inserted has a matching
  mapping and the parent derived from its product in the same way. The table grows by
  the reported number of inserts. With one mapping of a non-empty SKU to a product
  without parent, and no row for it in the table, one row is inserted, and its parent
  is the product's SKU code.
\<close>

theorem C6_sync_parent:
  fixes products mpds sms
  defines "js \<equiv> mpd_join_products mpds products"
  defines "T \<equiv> fst (sync products mpds sms)"
  shows "length T = length sms + sd_inserted (snd (sync products mpds sms)) \<and>
    (\<forall>i < length sms. \<forall>j. find (update_match (sms ! i)) js = Some j \<longrightarrow>
       sm_parent (T ! i) = parent_or_sku (snd j)) \<and>
    (\<forall>i. length sms \<le> i \<and> i < length T \<longrightarrow>
       (\<exists>j. find (update_match (T ! i)) js = Some j \<and> sm_parent (T ! i) = parent_or_sku (snd j))) \<and>
    (mpd_product_id m = Some (p_id p) \<and> mpd_sku m = Some x \<and> x \<noteq> [] \<and>
     \<not> conflicts sms x ''amazon'' (mpd_country_code m) \<and> p_parent p = None \<longrightarrow>
       fst (sync [p] [m] sms) = sync_update [(m, p)] sms @ [sync_row x m p] \<and>
       sd_inserted (snd (sync [p] [m] sms)) = 1 \<and>
       sm_parent (sync_row x m p) = p_product_sku p)"
proof -
  from sync_decompose [of products mpds sms] obtain new where
    new: "T = sync_update js sms @ new"
      "length new = sd_inserted (snd (sync products mpds sms))"
      "\<forall>r \<in> set new. backfilled js r"
    unfolding js_def T_def by blast
  have len: "length T = length sms + sd_inserted (snd (sync products mpds sms))"
    using new(1,2) by simp
  have old: "sm_parent (T ! i) = parent_or_sku (snd j)"
    if "i < length sms" "find (update_match (sms ! i)) js = Some j" for i j
  proof -
    from that(1) have "T ! i = sync_update js sms ! i"
      by (simp add: new(1) nth_append)
    also have "\<dots> = sync_set (snd j) (sms ! i)"
      using that by (simp add: sync_update_def)
    finally show ?thesis by (simp add: sm_parent_sync_set)
  qed
  have ins: "\<exists>j. find (update_match (T ! i)) js = Some j \<and> sm_parent (T ! i) = parent_or_sku (snd j)"
    if "length sms \<le> i" "i < length T" for i
  proof -
    from that have "T ! i = new ! (i - length sms)" "i - length sms < length new"
      by (simp_all add: new(1) nth_append)
    then have "T ! i \<in> set new" by simp
    with new(3) have "backfilled js (T ! i)" by blast
    then show ?thesis by (rule backfilled_parent)
  qed
  have one: "fst (sync [p] [m] sms) = sync_update [(m, p)] sms @ [sync_row x m p] \<and>
      sd_inserted (snd (sync [p] [m] sms)) = 1 \<and>
      sm_parent (sync_row x m p) = p_product_sku p"
    if "mpd_product_id m = Some (p_id p)" "mpd_sku m = Some x" "x \<noteq> []"
      "\<not> conflicts sms x ''amazon'' (mpd_country_code m)" "p_parent p = None"
    using sync_one_unmatched [OF that(1-4)] that(5) by (simp add: parent_or_sku_def)
  from len old ins one show ?thesis by blast
qed

lemma sync_X1: "sync [product_PX1] [mapping_X1] [] =
    ([row_X1], \<lparr>sd_updated = 0, sd_inserted = 1, sd_total = 1, sd_withCost = 1, sd_withSize = 0\<rparr>)"
  by (simp add: sync_def mpd_join_products_def sync_update_def insert_do_nothing_def conflicts_def
      sync_row_def coalesce_def product_PX1_def mapping_X1_def row_X1_def)

text \<open>
  The scenario of one unmatched mapping (\<open>sku = X1\<close>, product \<open>parent = NULL\<close>,
  \<open>product_sku = PX1\<close>) on an empty table: one row is inserted, with parent \<open>PX1\<close>. On
  a table that holds a stale row for \<open>X1\<close>, the update gives it that parent.
\<close>

lemma sync_stale_X1: "sync [product_PX1] [mapping_X1] [stale_X1] =
    ([row_X1], \<lparr>sd_updated = 0, sd_inserted = 0, sd_total = 1, sd_withCost = 1, sd_withSize = 0\<rparr>)"
  by (simp add: sync_def mpd_join_products_def sync_update_def update_match_def sync_set_def
      insert_do_nothing_def conflicts_def sync_row_def coalesce_def product_PX1_def mapping_X1_def
      row_X1_def stale_X1_def)

theorem C6_sync_parent_witness:
  "fst (sync [product_PX1] [mapping_X1] []) = [row_X1] \<and>
   sd_inserted (snd (sync [product_PX1] [mapping_X1] [])) = 1 \<and>
   fst (sync [product_PX1] [mapping_X1] [stale_X1]) = [row_X1] \<and>
   sd_inserted (snd (sync [product_PX1] [mapping_X1] [stale_X1])) = 0 \<and>
   p_parent product_PX1 = None \<and> p_product_sku product_PX1 = Some ''PX1'' \<and>
   find (update_match row_X1) (mpd_join_products [mapping_X1] [product_PX1]) = Some (mapping_X1, product_PX1) \<and>
   find (update_match stale_X1) (mpd_join_products [mapping_X1] [product_PX1]) = Some (mapping_X1, product_PX1) \<and>
   sm_parent stale_X1 = Some ''OLD'' \<and> sm_parent row_X1 = Some ''PX1''"
  using C6_sync_parent [where products = "[product_PX1]" and mpds = "[mapping_X1]" and sms = "[]"
      and m = mapping_X1 and p = product_PX1 and x = "''X1''"]
    C6_sync_parent [where products = "[product_PX1]" and mpds = "[mapping_X1]" and sms = "[stale_X1]"
      and m = mapping_X1 and p = product_PX1 and x = "''X1''"]
  by (simp add: sync_X1 sync_stale_X1 parent_or_sku_def)
    (simp add: mpd_join_products_def update_match_def product_PX1_def mapping_X1_def row_X1_def stale_X1_def)



lemma or_else_truthy: "truthy v \<Longrightarrow> \<exists>s. v = Val s \<and> s \<noteq> [] \<and> or_else v d = s"
  by (cases v) auto

lemma missing_loop_appends:
  "\<exists>new. fst (missing_loop sms skus a s) = sms @ new \<and>
     fst (snd (missing_loop sms skus a s)) = a + length new \<and>
     snd (snd (missing_loop sms skus a s)) + length new = s + length skus \<and>
     (\<forall>r \<in> set new. \<exists>e \<in> set skus. valid_entry e \<and> r = placeholder e)"
proof (induction skus arbitrary: sms a s)
  case Nil
  show ?case by simp
next
  case (Cons e skus)
  show ?case
  proof (cases "valid_entry e \<and> \<not> key_exists sms e")
    case True
    then have eq: "missing_loop sms (e # skus) a s = missing_loop (sms @ [placeholder e]) skus (a + 1) s"
      by (simp add: valid_entry_def key_exists_def insert_do_nothing_def placeholder_def)
    from Cons.IH [of "sms @ [placeholder e]" "a + 1" s] obtain new where
      new: "fst (missing_loop (sms @ [placeholder e]) skus (a + 1) s) = (sms @ [placeholder e]) @ new"
        "fst (snd (missing_loop (sms @ [placeholder e]) skus (a + 1) s)) = a + 1 + length new"
        "snd (snd (missing_loop (sms @ [placeholder e]) skus (a + 1) s)) + length new = s + length skus"
        "\<forall>r \<in> set new. \<exists>e \<in> set skus. valid_entry e \<and> r = placeholder e"
      by blast
    show ?thesis
      unfolding eq using new True
      by (intro exI [of _ "placeholder e # new"]) auto
  next
    case False
    then have eq: "missing_loop sms (e # skus) a s = missing_loop sms skus a (s + 1)"
      by (auto simp: valid_entry_def key_exists_def insert_do_nothing_def placeholder_def)
    from Cons.IH [of sms a "s + 1"] obtain new where
      new: "fst (missing_loop sms skus a (s + 1)) = sms @ new"
        "fst (snd (missing_loop sms skus a (s + 1))) = a + length new"
        "snd (snd (missing_loop sms skus a (s + 1))) + length new = s + 1 + length skus"
        "\<forall>r \<in> set new. \<exists>e \<in> set skus. valid_entry e \<and> r = placeholder e"
      by blast
    show ?thesis
      unfolding eq using new
      by (intro exI [of _ new]) auto
  qed
qed

lemma missing_loop_all_skipped:
  "\<forall>e \<in> set skus. valid_entry e \<longrightarrow> key_exists sms e \<Longrightarrow>
   missing_loop sms skus a s = (sms, a, s + length skus)"
proof (induction skus arbitrary: s)
  case Nil
  show ?case by simp
next
  case (Cons e skus)
  then have "missing_loop sms (e # skus) a s = missing_loop sms skus a (s + 1)"
    by (auto simp: valid_entry_def key_exists_def insert_do_nothing_def placeholder_def)
  with Cons show ?case by simp
qed

lemma missing_one_new:
  "valid_entry e \<Longrightarrow> \<not> key_exists sms e \<Longrightarrow>
   missing_loop sms [e] a s = (sms @ [placeholder e], a + 1, s)"
  by (simp add: valid_entry_def key_exists_def insert_do_nothing_def placeholder_def)

lemma key_exists_placeholder: "key_exists (sms @ [placeholder e]) e"
  by (simp add: key_exists_def conflicts_def placeholder_def)

lemma placeholder_fields:
  assumes "valid_entry e"
  shows "\<exists>sku mp. si_sku e = Val sku \<and> sku \<noteq> [] \<and> si_marketplace e = Val mp \<and> mp \<noteq> [] \<and>
    sm_sku (placeholder e) = sku \<and>
    sm_marketplace (placeholder e) = ''amazon'' \<and>
    sm_country_code (placeholder e) = mp \<and>
    sm_name (placeholder e) = Some (case si_name e of Val n \<Rightarrow> if n = [] then sku else n | _ \<Rightarrow> sku) \<and>
    sm_category (placeholder e) =
      Some (case si_category e of Val c \<Rightarrow> if c = [] then ''Unknown'' else c | _ \<Rightarrow> ''Unknown'')"
proof -
  from assms obtain sku mp where
    "si_sku e = Val sku" "sku \<noteq> []" "si_marketplace e = Val mp" "mp \<noteq> []"
    unfolding valid_entry_def by (metis or_else_truthy)
  then show ?thesis
    by (cases "si_name e"; cases "si_category e") (simp_all add: placeholder_def)
qed


lemma conflicts_sm_key: "conflicts sms (sm_sku r) (sm_marketplace r) (sm_country_code r) \<longleftrightarrow> sm_key r \<in> sm_key ` set sms"
proof
  assume "conflicts sms (sm_sku r) (sm_marketplace r) (sm_country_code r)"
  then obtain sm where "sm \<in> set sms" "sm_key sm = sm_key r"
    by (auto simp: conflicts_def sm_key_def)
  then show "sm_key r \<in> sm_key ` set sms"
    by (metis imageI)
next
  assume "sm_key r \<in> sm_key ` set sms"
  then show "conflicts sms (sm_sku r) (sm_marketplace r) (sm_country_code r)"
    by (auto simp: conflicts_def sm_key_def)
qed

lemma missing_loop_distinct:
  "distinct (map sm_key sms) \<Longrightarrow> distinct (map sm_key (fst (missing_loop sms skus a s)))"
proof (induction skus arbitrary: sms a s)
  case Nil
  then show ?case by simp
next
  case (Cons e skus)
  show ?case
  proof (cases "valid_entry e \<and> \<not> key_exists sms e")
    case True
    then have eq: "missing_loop sms (e # skus) a s = missing_loop (sms @ [placeholder e]) skus (a + 1) s"
      by (simp add: valid_entry_def key_exists_def insert_do_nothing_def placeholder_def)
    from True have "\<not> conflicts sms (sm_sku (placeholder e)) (sm_marketplace (placeholder e)) (sm_country_code (placeholder e))"
      by (simp add: key_exists_def placeholder_def)
    then have "sm_key (placeholder e) \<notin> sm_key ` set sms"
      by (simp add: conflicts_sm_key)
    with Cons.prems have "distinct (map sm_key (sms @ [placeholder e]))" by simp
    from Cons.IH [OF this] show ?thesis unfolding eq .
  next
    case False
    then have eq: "missing_loop sms (e # skus) a s = missing_loop sms skus a (s + 1)"
      by (auto simp: valid_entry_def key_exists_def insert_do_nothing_def placeholder_def)
    from Cons.IH [OF Cons.prems] show ?thesis unfolding eq .
  qed
qed

lemma missing_Some:
  "missing sms (Some skus) =
     (fst (missing_loop sms skus 0 0),
      Some \<lparr>md_added = fst (snd (missing_loop sms skus 0 0)),
            md_skipped = snd (snd (missing_loop sms skus 0 0)),
            md_total = length skus\<rparr>)"
  by (simp add: missing_def split_beta)

section \<open>The claims about the Missing-Reference Ingester\<close>

text \<open>
  C9. The ingester only appends: the table after a call is the table before it followed
  by the new rows, \<open>added\<close> counts the new rows and \<open>skipped\<close> the other entries. Keys that
  were unique stay unique. When every entry that passes the guard has its key
  (\<open>sku\<close>, \<open>'amazon'\<close>, the entry's \<open>marketplace\<close>) in the table, the table is unchanged
  and every entry is skipped. For an entry that passes the guard and whose key is not
  in the table, a first call adds one row and a second call with the same entry adds
  none and skips it.
\<close>

theorem C9_missing_never_updates:
  "(\<exists>new. missing sms (Some skus) =
      (sms @ new,
       Some \<lparr>md_added = length new, md_skipped = length skus - length new, md_total = length skus\<rparr>) \<and>
      length new \<le> length skus) \<and>
   (distinct (map sm_key sms) \<longrightarrow> distinct (map sm_key (fst (missing sms (Some skus))))) \<and>
   ((\<forall>e \<in> set skus. valid_entry e \<longrightarrow> key_exists sms e) \<longrightarrow>
      missing sms (Some skus) =
        (sms, Some \<lparr>md_added = 0, md_skipped = length skus, md_total = length skus\<rparr>)) \<and>
   (valid_entry e \<and> \<not> key_exists sms e \<longrightarrow>
      missing sms (Some [e]) =
        (sms @ [placeholder e], Some \<lparr>md_added = 1, md_skipped = 0, md_total = 1\<rparr>) \<and>
      missing (sms @ [placeholder e]) (Some [e]) =
        (sms @ [placeholder e], Some \<lparr>md_added = 0, md_skipped = 1, md_total = 1\<rparr>))"
proof (intro conjI impI)
  from missing_loop_appends [of sms skus 0 0] obtain new where
    new: "fst (missing_loop sms skus 0 0) = sms @ new"
      "fst (snd (missing_loop sms skus 0 0)) = length new"
      "snd (snd (missing_loop sms skus 0 0)) + length new = length skus"
    by auto
  then have "snd (snd (missing_loop sms skus 0 0)) = length skus - length new" "length new \<le> length skus"
    by arith+
  with new show "\<exists>new. missing sms (Some skus) =
      (sms @ new,
       Some \<lparr>md_added = length new, md_skipped = length skus - length new, md_total = length skus\<rparr>) \<and>
      length new \<le> length skus"
    by (intro exI [of _ new]) (simp add: missing_Some)
next
  assume "distinct (map sm_key sms)"
  then show "distinct (map sm_key (fst (missing sms (Some skus))))"
    by (simp add: missing_Some missing_loop_distinct)
next
  assume "\<forall>e \<in> set skus. valid_entry e \<longrightarrow> key_exists sms e"
  then show "missing sms (Some skus) =
      (sms, Some \<lparr>md_added = 0, md_skipped = length skus, md_total = length skus\<rparr>)"
    by (simp add: missing_Some missing_loop_all_skipped)
next
  assume e: "valid_entry e \<and> \<not> key_exists sms e"
  then have "missing_loop sms [e] 0 0 = (sms @ [placeholder e], 0 + 1, 0)"
    by (intro missing_one_new) simp_all
  then show "missing sms (Some [e]) =
      (sms @ [placeholder e], Some \<lparr>md_added = 1, md_skipped = 0, md_total = 1\<rparr>)"
    unfolding missing_Some by simp
next
  assume e: "valid_entry e \<and> \<not> key_exists sms e"
  have "\<forall>x \<in> set [e]. valid_entry x \<longrightarrow> key_exists (sms @ [placeholder e]) x"
    by (simp add: key_exists_placeholder)
  from missing_loop_all_skipped [OF this, of 0 0]
  show "missing (sms @ [placeholder e]) (Some [e]) =
      (sms @ [placeholder e], Some \<lparr>md_added = 0, md_skipped = 1, md_total = 1\<rparr>)"
    unfolding missing_Some by simp
qed

text \<open>
  The scenario \<open>{sku: "M1", marketplace: "amazon"}\<close> sent twice, starting from an empty
  table: \<open>added = 1\<close> in the first call, \<open>skipped = 1\<close> in the second, one row for \<open>M1\<close>.
\<close>

theorem C9_missing_witness:
  "valid_entry entry_M1 \<and> \<not> key_exists [] entry_M1 \<and>
   missing [] (Some [entry_M1]) =
     ([placeholder entry_M1], Some \<lparr>md_added = 1, md_skipped = 0, md_total = 1\<rparr>) \<and>
   missing [placeholder entry_M1] (Some [entry_M1]) =
     ([placeholder entry_M1], Some \<lparr>md_added = 0, md_skipped = 1, md_total = 1\<rparr>) \<and>
   length (filter (\<lambda>r. sm_sku r = ''M1'') (fst (missing [placeholder entry_M1] (Some [entry_M1])))) = 1 \<and>
   distinct (map sm_key [placeholder entry_M1]) \<and>
   key_exists [placeholder entry_M1] entry_M1"
  using C9_missing_never_updates [of "[]" "[entry_M1]" entry_M1]
    C9_missing_never_updates [of "[placeholder entry_M1]" "[entry_M1]" entry_M1]
  by (simp add: valid_entry_def key_exists_def conflicts_def entry_M1_def placeholder_def)

text \<open>
  C10. Every row the ingester inserts comes from an entry of the request with a
  non-empty \<open>sku\<close> and \<open>marketplace\<close>: its \<open>marketplace\<close> column is \<open>'amazon'\<close>, its
  \<open>country_code\<close> is the entry's \<open>marketplace\<close>, its name is the entry's name when that
  is a non-empty string and the SKU otherwise, and its category is the entry's category
  when that is a non-empty string and \<open>'Unknown'\<close> otherwise.
\<close>

theorem C10_placeholder_defaults:
  "\<exists>new. fst (missing sms (Some skus)) = sms @ new \<and>
     (\<forall>row \<in> set new. \<exists>e \<in> set skus. \<exists>sku mp.
        si_sku e = Val sku \<and> sku \<noteq> [] \<and> si_marketplace e = Val mp \<and> mp \<noteq> [] \<and>
        sm_sku row = sku \<and>
        sm_marketplace row = ''amazon'' \<and>
        sm_country_code row = mp \<and>
        sm_name row = Some (case si_name e of Val n \<Rightarrow> if n = [] then sku else n | _ \<Rightarrow> sku) \<and>
        sm_category row =
          Some (case si_category e of Val c \<Rightarrow> if c = [] then ''Unknown'' else c | _ \<Rightarrow> ''Unknown''))"
proof -
  from missing_loop_appends [of sms skus 0 0] obtain new where
    new: "fst (missing_loop sms skus 0 0) = sms @ new"
      "\<forall>r \<in> set new. \<exists>e \<in> set skus. valid_entry e \<and> r = placeholder e"
    by auto
  show ?thesis
  proof (intro exI [of _ new] conjI ballI)
    show "fst (missing sms (Some skus)) = sms @ new"
      by (simp add: missing_Some new(1))
  next
    fix row assume "row \<in> set new"
    with new(2) obtain e where e: "e \<in> set skus" "valid_entry e" "row = placeholder e"
      by blast
    from placeholder_fields [OF e(2)] e(1,3)
    show "\<exists>e \<in> set skus. \<exists>sku mp.
        si_sku e = Val sku \<and> sku \<noteq> [] \<and> si_marketplace e = Val mp \<and> mp \<noteq> [] \<and>
        sm_sku row = sku \<and>
        sm_marketplace row = ''amazon'' \<and>
        sm_country_code row = mp \<and>
        sm_name row = Some (case si_name e of Val n \<Rightarrow> if n = [] then sku else n | _ \<Rightarrow> sku) \<and>
        sm_category row =
          Some (case si_category e of Val c \<Rightarrow> if c = [] then ''Unknown'' else c | _ \<Rightarrow> ''Unknown'')"
      by blast
  qed
qed

theorem C10_placeholder_witness:
  "fst (missing [] (Some [entry_M1, entry_M2])) = [] @ [placeholder entry_M1, placeholder entry_M2] \<and>
   sm_marketplace (placeholder entry_M1) = ''amazon'' \<and>
   sm_country_code (placeholder entry_M1) = ''amazon'' \<and>
   sm_name (placeholder entry_M1) = Some ''M1'' \<and>
   sm_category (placeholder entry_M1) = Some ''Unknown'' \<and>
   sm_marketplace (placeholder entry_M2) = ''amazon'' \<and>
   sm_country_code (placeholder entry_M2) = ''US'' \<and>
   sm_name (placeholder entry_M2) = Some ''Mug'' \<and>
   sm_category (placeholder entry_M2) = Some ''Kitchen''"
  using C10_placeholder_defaults [of "[]" "[entry_M1, entry_M2]"]
  by (simp add: missing_def insert_do_nothing_def conflicts_def entry_M1_def entry_M2_def placeholder_def)

section \<open>Properties of the bulk product import\<close>

declare chunks.simps [simp del] bulk_loop.simps [simp del]

lemma bulk_loop_chunks:
  "bulk_loop db uniq i a u = run_chunks db (chunks BATCH_SIZE (drop i uniq)) a u"
proof (induction db uniq i a u rule: bulk_loop.induct)
  case (1 db uniq i a u)
  show ?case
  proof (cases "i < length uniq")
    case False
    then show ?thesis
      by (subst bulk_loop.simps) (simp add: chunks.simps [of _ "[]"])
  next
    case True
    then have c: "chunks BATCH_SIZE (drop i uniq) =
        slice uniq i (i + BATCH_SIZE) # chunks BATCH_SIZE (drop (i + BATCH_SIZE) uniq)"
      by (subst chunks.simps) (simp add: BATCH_SIZE_def slice_def add.commute)
    show ?thesis
    proof (cases "query_upsert db (map unnest_row (slice uniq i (i + BATCH_SIZE)))")
      case (Inl e)
      with True show ?thesis
        by (subst bulk_loop.simps) (simp add: c)
    next
      case (Inr res)
      then obtain db' result where
        q: "query_upsert db (map unnest_row (slice uniq i (i + BATCH_SIZE))) = Inr (db', result)"
        by (cases res) simp
      note IH = "1.IH" [OF True refl q refl refl]
      let ?ins = "length (filter (\<lambda>is_insert. is_insert) result)"
      have "bulk_loop db uniq i a u =
          bulk_loop db' uniq (i + BATCH_SIZE) (a + ?ins) (u + (length result - ?ins))"
        by (subst bulk_loop.simps) (simp add: True q Let_def)
      also have "\<dots> = run_chunks db' (chunks BATCH_SIZE (drop (i + BATCH_SIZE) uniq))
          (a + ?ins) (u + (length result - ?ins))"
        by (rule IH)
      also have "\<dots> = run_chunks db (chunks BATCH_SIZE (drop i uniq)) a u"
        by (simp add: c q Let_def)
      finally show ?thesis .
    qed
  qed
qed

lemma concat_chunks: "0 < n \<Longrightarrow> concat (chunks n xs) = xs"
proof (induction n xs rule: chunks.induct)
  case (1 n xs)
  then show ?case
    by (subst chunks.simps) auto
qed

lemma upsert_rows_length:
  "upsert_rows db touched exs = Inr (db', flags) \<Longrightarrow>
   length flags = length exs \<and> length db' = length db + length (filter (\<lambda>is_insert. is_insert) flags)"
proof (induction exs arbitrary: db touched db' flags)
  case Nil
  then show ?case by simp
next
  case (Cons ex exs)
  from Cons.prems show ?case
    by (auto split: sum.splits prod.splits if_splits dest!: Cons.IH)
qed

lemma run_chunks_counts:
  "run_chunks db cs a u = (db', Inr (a', u')) \<Longrightarrow>
   a' + u' = a + u + length (concat cs) \<and> a \<le> a' \<and> length db' = length db + (a' - a)"
proof (induction cs arbitrary: db a u)
  case Nil
  then show ?case by simp
next
  case (Cons c cs)
  from Cons.prems obtain db1 result where
    q: "query_upsert db (map unnest_row c) = Inr (db1, result)"
    by (auto split: sum.splits)
  let ?ins = "length (filter (\<lambda>is_insert. is_insert) result)"
  from q have len: "length result = length c" "length db1 = length db + ?ins"
    using upsert_rows_length [of db "[]" "map unnest_row c" db1 result]
    by (simp_all add: query_upsert_def)
  from Cons.prems q have "run_chunks db1 cs (a + ?ins) (u + (length result - ?ins)) = (db', Inr (a', u'))"
    by (simp add: Let_def)
  from Cons.IH [OF this] len show ?case
    using length_filter_le [of "\<lambda>is_insert. is_insert" result] by simp
qed

lemma length_uniqueProducts:
  "length (uniqueProducts products) = card (product_key ` set products - {[]})"
proof -
  have "product_key ` set (uniqueProducts products) = product_key ` set products - {[]}"
  proof (rule set_eqI)
    fix k
    have "k \<in> product_key ` set (uniqueProducts products) \<longleftrightarrow>
        find (\<lambda>q. product_key q = k) (uniqueProducts products) \<noteq> None"
      by (auto simp: find_None_iff)
    also have "\<dots> \<longleftrightarrow> k \<noteq> [] \<and> find (\<lambda>q. product_key q = k) (rev products) \<noteq> None"
      by (simp add: find_uniqueProducts)
    also have "\<dots> \<longleftrightarrow> k \<in> product_key ` set products - {[]}"
      by (auto simp: find_None_iff)
    finally show "k \<in> product_key ` set (uniqueProducts products) \<longleftrightarrow>
        k \<in> product_key ` set products - {[]}" .
  qed
  then have "card (product_key ` set products - {[]}) = card (set (map product_key (uniqueProducts products)))"
    by simp
  also have "\<dots> = length (map product_key (uniqueProducts products))"
    by (rule distinct_card) (rule uniqueProducts_distinct)
  finally show ?thesis by simp
qed

text \<open>
  C2. When the import answers with counts (no chunk failed), \<open>added + updated\<close> is the
  number of distinct non-empty canonical keys (names lower-cased and trimmed) of the
  request: every record of the deduplicated list is returned by exactly one statement
  with exactly one \<open>is_insert\<close> flag. The table grows by \<open>added\<close> rows. The counts come
  from the flags that the upsert statement returns; the loop issues no other statement.
\<close>

theorem C2_bulk_counts:
  assumes "reported_counts (snd (bulk db (Some products))) = Some (added, updated)"
  shows "added + updated = card (product_key ` set products - {[]}) \<and>
    length (fst (bulk db (Some products))) = length db + added"
proof (cases "products = []")
  case True
  with assms show ?thesis by (simp add: bulk_def)
next
  case False
  let ?us = "uniqueProducts products"
  obtain db' r where l: "bulk_loop db ?us 0 0 0 = (db', r)" by (cases "bulk_loop db ?us 0 0 0")
  with assms False obtain a u where r: "r = Inr (a, u)" "a = added" "u = updated"
    by (cases r) (auto simp: bulk_def)
  from l r have "run_chunks db (chunks BATCH_SIZE ?us) 0 0 = (db', Inr (added, updated))"
    by (simp add: bulk_loop_chunks)
  from run_chunks_counts [OF this]
  have "added + updated = length ?us" "length db' = length db + added"
    by (simp_all add: concat_chunks BATCH_SIZE_def)
  moreover have "fst (bulk db (Some products)) = db'"
    using False l r by (simp add: bulk_def)
  ultimately show ?thesis
    by (simp add: length_uniqueProducts)
qed


subsection \<open>The merge of one statement\<close>

lemma p_name_do_update [simp]: "p_name (do_update r ex) = p_name r"
  by (simp add: do_update_def)

lemma p_name_insert_row [simp]: "p_name (insert_row i n ex) = n"
  by (simp add: insert_row_def)

lemma find_name_map_other:
  "m \<noteq> n \<Longrightarrow>
   find (\<lambda>r. p_name r = n) (map (\<lambda>r. if p_name r = m then do_update r ex else r) db) =
   find (\<lambda>r. p_name r = n) db"
  by (induction db) auto

lemma find_name_map_same:
  "find (\<lambda>r. p_name r = n) db = Some R \<Longrightarrow>
   find (\<lambda>r. p_name r = n) (map (\<lambda>r. if p_name r = n then do_update r ex else r) db) =
   Some (do_update R ex)"
  by (induction db) (auto split: if_splits)

lemma find_name_append_other:
  "m \<noteq> n \<Longrightarrow>
   find (\<lambda>r. p_name r = n) (db @ [insert_row i m ex]) = find (\<lambda>r. p_name r = n) db"
  by (induction db) auto

text \<open>What one step of a successful statement did.\<close>

lemma upsert_rows_Cons:
  assumes "upsert_rows db touched (ex # exs) = Inr (db', flags)"
  obtains n ex' flags' where
    "coerce_row ex = Inr (n, ex')" "n \<notin> set touched"
    "upsert_rows
       (if \<exists>r \<in> set db. p_name r = n
        then map (\<lambda>r. if p_name r = n then do_update r ex' else r) db
        else db @ [insert_row (fresh_id db) n ex'])
       (n # touched) exs = Inr (db', flags')"
    "flags = (\<not> (\<exists>r \<in> set db. p_name r = n)) # flags'"
proof (cases "coerce_row ex")
  case (Inl e)
  with assms show ?thesis by simp
next
  case (Inr res)
  obtain n ex' where res: "coerce_row ex = Inr (n, ex')"
    using Inr by (cases res) simp
  from assms res have nt: "n \<notin> set touched"
    by (auto split: if_splits)
  show ?thesis
  proof (cases "\<exists>r \<in> set db. p_name r = n")
    case True
    with assms res nt that [OF res nt] show ?thesis
      by (auto split: sum.splits)
  next
    case False
    with assms res nt that [OF res nt] show ?thesis
      by (auto split: sum.splits)
  qed
qed

lemma find_name_step:
  "m \<noteq> n \<Longrightarrow>
   find (\<lambda>r. p_name r = n)
     (if \<exists>r \<in> set db. p_name r = m
      then map (\<lambda>r. if p_name r = m then do_update r ex else r) db
      else db @ [insert_row i m ex]) =
   find (\<lambda>r. p_name r = n) db"
  by (simp add: find_name_map_other find_name_append_other)

lemma upsert_rows_untouched:
  "upsert_rows db touched exs = Inr (db', flags) \<Longrightarrow> n \<in> set touched \<Longrightarrow>
   find (\<lambda>r. p_name r = n) db' = find (\<lambda>r. p_name r = n) db"
proof (induction exs arbitrary: db touched flags)
  case Nil
  then show ?case by simp
next
  case (Cons ex exs)
  from Cons.prems(1) obtain m ex' flags' where
    step: "m \<notin> set touched"
      "upsert_rows
         (if \<exists>r \<in> set db. p_name r = m
          then map (\<lambda>r. if p_name r = m then do_update r ex' else r) db
          else db @ [insert_row (fresh_id db) m ex'])
         (m # touched) exs = Inr (db', flags')"
    by (rule upsert_rows_Cons)
  from step(1) Cons.prems(2) have "m \<noteq> n" by auto
  from Cons.IH [OF step(2)] Cons.prems(2) find_name_step [OF this]
  show ?case by simp
qed

lemma upsert_rows_not_touched:
  "upsert_rows db touched exs = Inr (db', flags) \<Longrightarrow> ex \<in> set exs \<Longrightarrow>
   coerce_row ex = Inr (n, ex') \<Longrightarrow> n \<notin> set touched"
proof (induction exs arbitrary: db touched flags)
  case Nil
  then show ?case by simp
next
  case (Cons x exs)
  from Cons.prems(1) obtain m x' flags' where
    step: "coerce_row x = Inr (m, x')" "m \<notin> set touched"
      "upsert_rows
         (if \<exists>r \<in> set db. p_name r = m
          then map (\<lambda>r. if p_name r = m then do_update r x' else r) db
          else db @ [insert_row (fresh_id db) m x'])
         (m # touched) exs = Inr (db', flags')"
    by (rule upsert_rows_Cons)
  show ?case
  proof (cases "ex \<in> set exs")
    case True
    from Cons.IH [OF step(3) True Cons.prems(3)] show ?thesis by simp
  next
    case False
    with Cons.prems(2) have "ex = x" by simp
    with step(1,2) Cons.prems(3) show ?thesis by simp
  qed
qed

lemma upsert_rows_merge:
  "upsert_rows db touched exs = Inr (db', flags) \<Longrightarrow> ex \<in> set exs \<Longrightarrow>
   coerce_row ex = Inr (n, ex') \<Longrightarrow> find (\<lambda>r. p_name r = n) db = Some R \<Longrightarrow>
   find (\<lambda>r. p_name r = n) db' = Some (do_update R ex')"
proof (induction exs arbitrary: db touched flags R)
  case Nil
  then show ?case by simp
next
  case (Cons x exs)
  from Cons.prems(1) obtain m x' flags' where
    step: "coerce_row x = Inr (m, x')" "m \<notin> set touched"
      "upsert_rows
         (if \<exists>r \<in> set db. p_name r = m
          then map (\<lambda>r. if p_name r = m then do_update r x' else r) db
          else db @ [insert_row (fresh_id db) m x'])
         (m # touched) exs = Inr (db', flags')"
    by (rule upsert_rows_Cons)
  show ?case
  proof (cases "m = n")
    case True
    from Cons.prems(4) have stored: "\<exists>r \<in> set db. p_name r = n"
      by (auto simp: find_Some_iff)
    have "ex \<notin> set exs"
    proof
      assume "ex \<in> set exs"
      from upsert_rows_not_touched [OF step(3) this Cons.prems(3)] True
      show False by simp
    qed
    with Cons.prems(2) have "ex = x" by simp
    with step(1) Cons.prems(3) have x': "x' = ex'" by simp
    have rest: "upsert_rows (map (\<lambda>r. if p_name r = n then do_update r ex' else r) db)
        (n # touched) exs = Inr (db', flags')"
      using step(3) stored unfolding True x' by simp
    have "find (\<lambda>r. p_name r = n) db' =
        find (\<lambda>r. p_name r = n) (map (\<lambda>r. if p_name r = n then do_update r ex' else r) db)"
      by (rule upsert_rows_untouched [OF rest]) simp
    also have "\<dots> = Some (do_update R ex')"
      by (rule find_name_map_same [OF Cons.prems(4)])
    finally show ?thesis .
  next
    case False
    with step(1) Cons.prems(3) have "ex \<noteq> x" by auto
    with Cons.prems(2) have mem: "ex \<in> set exs" by simp
    have "find (\<lambda>r. p_name r = n)
        (if \<exists>r \<in> set db. p_name r = m
         then map (\<lambda>r. if p_name r = m then do_update r x' else r) db
         else db @ [insert_row (fresh_id db) m x']) = Some R"
      using find_name_step [OF False] Cons.prems(4) by simp
    from Cons.IH [OF step(3) mem Cons.prems(3) this] show ?thesis .
  qed
qed

text \<open>What the column checks leave of a proposed row.\<close>

lemma varchar_Inr: "varchar k v = Inr w \<Longrightarrow> w = map_option (take k) v"
  by (auto simp: varchar_def split: option.splits if_splits)

lemma coerce_row_fields:
  assumes "coerce_row ex = Inr (n, ex')"
  shows "(\<exists>s. ex_name ex = Some s \<and> n = take 255 s) \<and>
    ex_category ex' = map_option (take 100) (ex_category ex) \<and>
    ex_base_cost ex' = ex_base_cost ex \<and> ex_size ex' = ex_size ex \<and>
    ex_weight ex' = ex_weight ex \<and> ex_width ex' = ex_width ex \<and>
    ex_height ex' = ex_height ex \<and> ex_length ex' = ex_length ex \<and>
    ex_product_sku ex' = ex_product_sku ex \<and> ex_parent ex' = ex_parent ex"
proof -
  from assms obtain name category source where
    v: "varchar 255 (ex_name ex) = Inr (Some n)" "varchar 100 (ex_category ex) = Inr category"
      "varchar 50 (ex_source ex) = Inr source"
      "ex' = ex\<lparr>ex_name := Some n, ex_category := category, ex_source := source\<rparr>"
    by (auto simp: coerce_row_def split: sum.splits option.splits)
  from varchar_Inr [OF v(1)] have "\<exists>s. ex_name ex = Some s \<and> n = take 255 s"
    by (cases "ex_name ex") auto
  moreover from varchar_Inr [OF v(2)] have "category = map_option (take 100) (ex_category ex)" .
  ultimately show ?thesis
    using v(4) by simp
qed

lemma coerce_row_unnest:
  assumes "coerce_row (unnest_row I) = Inr (n, ex')" and "js_name I = Val s" and "length s \<le> 255"
  shows "n = s"
proof -
  from coerce_row_fields [OF assms(1)] obtain t where "ex_name (unnest_row I) = Some t" "n = take 255 t"
    by blast
  with assms(2,3) show ?thesis
    by (simp add: unnest_row_def)
qed

lemma upsert_rows_coerces:
  "upsert_rows db touched exs = Inr (db', flags) \<Longrightarrow> ex \<in> set exs \<Longrightarrow>
   \<exists>n ex'. coerce_row ex = Inr (n, ex')"
proof (induction exs arbitrary: db touched flags)
  case Nil
  then show ?case by simp
next
  case (Cons x exs)
  from Cons.prems(1) obtain m x' flags' where
    step: "coerce_row x = Inr (m, x')"
      "upsert_rows
         (if \<exists>r \<in> set db. p_name r = m
          then map (\<lambda>r. if p_name r = m then do_update r x' else r) db
          else db @ [insert_row (fresh_id db) m x'])
         (m # touched) exs = Inr (db', flags')"
    by (rule upsert_rows_Cons)
  from Cons.prems(2) step(1) Cons.IH [OF step(2)] show ?case by auto
qed

lemma query_upsert_merge:
  assumes "query_upsert db (map unnest_row batch) = Inr (db', flags)"
    and "I \<in> set batch" and "js_name I = Val (p_name R)" and "length (p_name R) \<le> 255"
    and "find (\<lambda>r. p_name r = p_name R) db = Some R"
  shows "\<exists>ex'. coerce_row (unnest_row I) = Inr (p_name R, ex') \<and>
    find (\<lambda>r. p_name r = p_name R) db' = Some (do_update R ex')"
proof -
  from assms(1) have u: "upsert_rows db [] (map unnest_row batch) = Inr (db', flags)"
    by (simp add: query_upsert_def)
  from assms(2) have mem: "unnest_row I \<in> set (map unnest_row batch)" by simp
  from upsert_rows_coerces [OF u mem] obtain n ex' where c: "coerce_row (unnest_row I) = Inr (n, ex')"
    by blast
  from coerce_row_unnest [OF c assms(3,4)] have n: "n = p_name R" .
  from upsert_rows_merge [OF u mem c] assms(5) n c show ?thesis by simp
qed


text \<open>
  C5, as amended. Under the same conditions the category of the stored row is always
  overwritten: with the category of \<open>I\<close> (cut to the 100 characters of the column) when
  \<open>I\<close> gives one, and with NULL when the category of \<open>I\<close> is null or absent.
\<close>

theorem C5_category_overwritten:
  assumes "query_upsert db (map unnest_row batch) = Inr (db', flags)"
    and "I \<in> set batch" and "js_name I = Val (p_name R)" and "length (p_name R) \<le> 255"
    and "find (\<lambda>r. p_name r = p_name R) db = Some R"
  shows "\<exists>R'. find (\<lambda>r. p_name r = p_name R) db' = Some R' \<and>
    p_category R' = (case js_category I of Val c \<Rightarrow> Some (take 100 c) | _ \<Rightarrow> None)"
proof -
  from query_upsert_merge [OF assms] obtain ex' where
    ex': "coerce_row (unnest_row I) = Inr (p_name R, ex')"
      "find (\<lambda>r. p_name r = p_name R) db' = Some (do_update R ex')"
    by blast
  have "p_category (do_update R ex') = (case js_category I of Val c \<Rightarrow> Some (take 100 c) | _ \<Rightarrow> None)"
    using coerce_row_fields [OF ex'(1)]
    by (cases "js_category I") (simp_all add: do_update_def unnest_row_def)
  with ex'(2) show ?thesis by simp
qed


lemma upsert_widget:
  "query_upsert [stored_widget] (map unnest_row [widget ''Widget A'' (Val 5)]) =
     Inr ([merged_widget], [False])"
  by (simp add: query_upsert_def coerce_row_def varchar_def unnest_row_def widget_def
      stored_widget_def merged_widget_def do_update_def coalesce_def)

lemma bulk_widget:
  "bulk [stored_widget] (Some [widget ''Widget A'' (Val 5)]) = ([merged_widget], Status201 0 1)"
proof -
  have k: "product_key (widget ''Widget A'' (Val 5)) = ''widget a''"
    by (simp add: product_key_def widget_def trim_def toLowerCase_def lower_char_def is_space_def)
  have u: "uniqueProducts [widget ''Widget A'' (Val 5)] = [widget ''Widget A'' (Val 5)]"
    by (simp add: uniqueProducts_def k)
  have c: "chunks BATCH_SIZE [widget ''Widget A'' (Val 5)] = [widget ''Widget A'' (Val 5)] # []"
    by (simp add: chunks.simps BATCH_SIZE_def)
  show ?thesis
    using upsert_widget
    by (simp add: bulk_def u bulk_loop_chunks c)
qed


text \<open>
  C5 as stated fails: the record \<open>{name: "Widget A", base_cost: 5}\<close> has no category, and
  its import sets the stored category \<open>Toys\<close> to NULL.
\<close>

theorem C5_category_counterexample:
  "js_category (widget ''Widget A'' (Val 5)) = Undefined \<and>
   js_name (widget ''Widget A'' (Val 5)) = Val (p_name stored_widget) \<and>
   p_category stored_widget = Some ''Toys'' \<and>
   bulk [stored_widget] (Some [widget ''Widget A'' (Val 5)]) = ([merged_widget], Status201 0 1) \<and>
   p_name merged_widget = p_name stored_widget \<and>
   p_category merged_widget = None"
  by (simp add: bulk_widget) (simp add: widget_def stored_widget_def merged_widget_def)

theorem C5_category_overwritten_witness:
  "query_upsert [stored_widget] (map unnest_row [widget ''Widget A'' (Val 5)]) =
     Inr ([merged_widget], [False]) \<and>
   js_name (widget ''Widget A'' (Val 5)) = Val (p_name stored_widget) \<and>
   js_category (widget ''Widget A'' (Val 5)) = Undefined \<and>
   find (\<lambda>r. p_name r = p_name stored_widget) [stored_widget] = Some stored_widget \<and>
   find (\<lambda>r. p_name r = p_name stored_widget) [merged_widget] = Some merged_widget \<and>
   p_category stored_widget = Some ''Toys'' \<and>
   p_category merged_widget = None"
  using upsert_widget C5_category_overwritten [OF upsert_widget, of "widget ''Widget A'' (Val 5)" stored_widget]
  by (simp add: widget_def stored_widget_def merged_widget_def)

lemma bulk_two_widgets:
  "bulk [] (Some [widget ''Widget A'' Undefined, widget ''widget a '' (Val 5)]) =
     ([widget_row], Status201 1 0)"
proof -
  have k: "product_key (widget ''Widget A'' Undefined) = ''widget a''"
    "product_key (widget ''widget a '' (Val 5)) = ''widget a''"
    by (simp_all add: product_key_def widget_def trim_def toLowerCase_def lower_char_def is_space_def)
  have u: "uniqueProducts [widget ''Widget A'' Undefined, widget ''widget a '' (Val 5)] =
      [widget ''widget a '' (Val 5)]"
    by (simp add: uniqueProducts_def k)
  have c: "chunks BATCH_SIZE [widget ''widget a '' (Val 5)] = [widget ''widget a '' (Val 5)] # []"
    by (simp add: chunks.simps BATCH_SIZE_def)
  have q: "query_upsert [] (map unnest_row [widget ''widget a '' (Val 5)]) = Inr ([widget_row], [True])"
    by (simp add: query_upsert_def coerce_row_def varchar_def unnest_row_def widget_def
      widget_row_def insert_row_def fresh_id_def)
  show ?thesis
    using q by (simp add: bulk_def u bulk_loop_chunks c)
qed

theorem C2_bulk_counts_witness:
  "reported_counts (snd (bulk [] (Some [widget ''Widget A'' Undefined, widget ''widget a '' (Val 5)])))
     = Some (1, 0) \<and>
   card (product_key ` set [widget ''Widget A'' Undefined, widget ''widget a '' (Val 5)] - {[]}) = 1 \<and>
   length (fst (bulk [] (Some [widget ''Widget A'' Undefined, widget ''widget a '' (Val 5)]))) = 1"
  using C2_bulk_counts [of "[]" "[widget ''Widget A'' Undefined, widget ''widget a '' (Val 5)]" 1 0]
  by (simp add: bulk_two_widgets)

lemma run_chunks_append:
  "run_chunks db pre a u = (db1, Inr (a1, u1)) \<Longrightarrow>
   run_chunks db (pre @ rest) a u = run_chunks db1 rest a1 u1"
proof (induction pre arbitrary: db a u)
  case Nil
  then show ?case by simp
next
  case (Cons c pre)
  from Cons.prems obtain db' result where
    q: "query_upsert db (map unnest_row c) = Inr (db', result)"
    by (auto split: sum.splits)
  with Cons.prems Cons.IH show ?case
    by (simp add: Let_def)
qed

lemma chunks_append:
  "0 < n \<Longrightarrow> length xs = m * n \<Longrightarrow> chunks n (xs @ ys) = chunks n xs @ chunks n ys"
proof (induction m arbitrary: xs)
  case 0
  then show ?case by (simp add: chunks.simps [of n "[]"])
next
  case (Suc m)
  then have len: "n \<le> length xs" "xs \<noteq> []" by auto
  from Suc.prems have "length (drop n xs) = m * n" by simp
  from Suc.IH [OF Suc.prems(1) this]
  have IH: "chunks n (drop n xs @ ys) = chunks n (drop n xs) @ chunks n ys" .
  have "chunks n (xs @ ys) = take n xs # chunks n (drop n xs @ ys)"
    using len Suc.prems(1) by (subst chunks.simps) simp
  also have "\<dots> = (take n xs # chunks n (drop n xs)) @ chunks n ys"
    by (simp add: IH)
  also have "take n xs # chunks n (drop n xs) = chunks n xs"
    using len Suc.prems(1) by (subst (2) chunks.simps) simp
  finally show ?case .
qed

lemma bulk_loop_fails:
  assumes "k * BATCH_SIZE < length uniq"
    and "bulk_loop db (take (k * BATCH_SIZE) uniq) 0 0 0 = (db1, Inr (added, updated))"
    and "query_upsert db1 (map unnest_row (slice uniq (k * BATCH_SIZE) (k * BATCH_SIZE + BATCH_SIZE))) = Inl e"
  shows "bulk_loop db uniq 0 0 0 = (db1, Inl e)"
proof -
  let ?pre = "take (k * BATCH_SIZE) uniq"
  let ?post = "drop (k * BATCH_SIZE) uniq"
  have B: "0 < BATCH_SIZE" by (simp add: BATCH_SIZE_def)
  from assms(1) have len: "length ?pre = k * BATCH_SIZE" by simp
  have "chunks BATCH_SIZE (?pre @ ?post) = chunks BATCH_SIZE ?pre @ chunks BATCH_SIZE ?post"
    by (rule chunks_append [OF B len])
  then have split: "chunks BATCH_SIZE uniq = chunks BATCH_SIZE ?pre @ chunks BATCH_SIZE ?post"
    by simp
  from assms(1) have "?post \<noteq> []" by simp
  then have post: "chunks BATCH_SIZE ?post =
      slice uniq (k * BATCH_SIZE) (k * BATCH_SIZE + BATCH_SIZE) #
      chunks BATCH_SIZE (drop BATCH_SIZE ?post)"
    using B by (subst chunks.simps) (simp add: slice_def)
  from assms(2) have "run_chunks db (chunks BATCH_SIZE ?pre) 0 0 = (db1, Inr (added, updated))"
    by (simp add: bulk_loop_chunks)
  from run_chunks_append [OF this]
  have "run_chunks db (chunks BATCH_SIZE uniq) 0 0 = run_chunks db1 (chunks BATCH_SIZE ?post) added updated"
    by (simp add: split)
  also have "\<dots> = (db1, Inl e)"
    using assms(3) by (simp add: post)
  finally show ?thesis
    by (simp add: bulk_loop_chunks)
qed

lemma bulk_chunk_failure:
  assumes "products \<noteq> []"
    and "k * BATCH_SIZE < length (uniqueProducts products)"
    and "bulk_loop db (take (k * BATCH_SIZE) (uniqueProducts products)) 0 0 0 = (db1, Inr (added, updated))"
    and "query_upsert db1 (map unnest_row
          (slice (uniqueProducts products) (k * BATCH_SIZE) (k * BATCH_SIZE + BATCH_SIZE))) = Inl e"
  shows "bulk db (Some products) = (db1, Status500 e)"
  using assms(1) bulk_loop_fails [OF assms(2,3,4)]
  by (simp add: bulk_def)

subsection \<open>A batch of two chunks\<close>

lemma varchar_short: "length s \<le> k \<Longrightarrow> varchar k (Some s) = Inr (Some s)"
  by (simp add: varchar_def)

lemma coerce_widget:
  "length s \<le> 255 \<Longrightarrow> coerce_row (unnest_row (widget s c)) = Inr (s, unnest_row (widget s c))"
  by (simp add: coerce_row_def unnest_row_def widget_def varchar_short) (simp add: varchar_def)

lemma upsert_rows_fresh:
  "list_all2 (\<lambda>ex n. \<exists>ex'. coerce_row ex = Inr (n, ex')) exs ns \<Longrightarrow> distinct ns \<Longrightarrow>
   set ns \<inter> set touched = {} \<Longrightarrow> set ns \<inter> p_name ` set db = {} \<Longrightarrow>
   \<exists>db'. upsert_rows db touched exs = Inr (db', replicate (length exs) True)"
proof (induction exs arbitrary: ns db touched)
  case Nil
  then show ?case by simp
next
  case (Cons ex exs)
  from Cons.prems(1) obtain n ns' ex' where
    ns: "ns = n # ns'" "coerce_row ex = Inr (n, ex')"
      "list_all2 (\<lambda>ex n. \<exists>ex'. coerce_row ex = Inr (n, ex')) exs ns'"
    by (auto simp: list_all2_Cons1)
  let ?db1 = "db @ [insert_row (fresh_id db) n ex']"
  from Cons.prems ns(1) have fresh: "n \<notin> set touched" "\<not> (\<exists>r \<in> set db. p_name r = n)"
    by auto
  have "distinct ns'" "set ns' \<inter> set (n # touched) = {}" "set ns' \<inter> p_name ` set ?db1 = {}"
    using Cons.prems ns(1) by auto
  from Cons.IH [OF ns(3) this] obtain db' where
    "upsert_rows ?db1 (n # touched) exs = Inr (db', replicate (length exs) True)"
    by blast
  with ns(2) fresh show ?case by simp
qed

lemma product_key_replicate:
  "lower_char c = c \<Longrightarrow> \<not> is_space c \<Longrightarrow>
   product_key (widget (replicate (Suc n) c) x) = replicate (Suc n) c"
proof -
  assume c: "lower_char c = c" "\<not> is_space c"
  have "toLowerCase (replicate (Suc n) c) = replicate (Suc n) c"
    using c(1) by (simp add: toLowerCase_def)
  moreover have "trim (replicate (Suc n) c) = replicate (Suc n) c"
    using c(2) by (simp add: trim_def replicate_append_same)
  ultimately show ?thesis
    by (simp add: product_key_def widget_def del: replicate_Suc)
qed

lemma chars_abc:
  "lower_char CHR ''a'' = CHR ''a''" "\<not> is_space CHR ''a''"
  "lower_char CHR ''b'' = CHR ''b''" "\<not> is_space CHR ''b''"
  "lower_char CHR ''c'' = CHR ''c''" "\<not> is_space CHR ''c''"
  by (simp_all add: lower_char_def is_space_def)

lemma keys_two_chunk_batch:
  "map product_key two_chunk_batch =
     map (\<lambda>i. replicate (Suc i) CHR ''a'') [0..<250] @
     map (\<lambda>i. replicate (Suc i) CHR ''b'') [0..<250] @ [replicate 256 CHR ''c'']"
proof -
  have "product_key long_name_product = replicate (Suc 255) CHR ''c''"
    unfolding long_name_product_def
    using product_key_replicate [of "CHR ''c''" 255 Undefined] chars_abc by simp
  then show ?thesis
    by (simp add: two_chunk_batch_def first_chunk_def product_key_replicate chars_abc
        del: replicate_Suc)
qed

lemma distinct_keys_two_chunk_batch: "distinct (map product_key two_chunk_batch)"
  unfolding keys_two_chunk_batch
  by (auto simp: distinct_map inj_on_def simp del: replicate_Suc)

lemma uniqueProducts_two_chunk_batch: "uniqueProducts two_chunk_batch = two_chunk_batch"
proof -
  have "\<forall>x \<in> set two_chunk_batch. product_key x \<noteq> []"
  proof
    fix x assume "x \<in> set two_chunk_batch"
    then have "product_key x \<in> set (map product_key two_chunk_batch)" by simp
    then show "product_key x \<noteq> []"
      unfolding keys_two_chunk_batch by auto
  qed
  with distinct_keys_two_chunk_batch
  have "productMap_set [] two_chunk_batch = [] @ map (\<lambda>p. (product_key p, p)) two_chunk_batch"
    by (intro productMap_set_distinct_input) simp_all
  then show ?thesis
    by (simp add: uniqueProducts_def comp_def)
qed

lemma length_first_chunk: "length first_chunk = 500"
  by (simp add: first_chunk_def)

lemma first_chunk_succeeds:
  "\<exists>db1. query_upsert [] (map unnest_row first_chunk) = Inr (db1, replicate 500 True)"
proof -
  let ?ns = "map (\<lambda>i. replicate (Suc i) CHR ''a'') [0..<250] @
     map (\<lambda>i. replicate (Suc i) CHR ''b'') [0..<250]"
  have "list_all2 (\<lambda>ex n. \<exists>ex'. coerce_row ex = Inr (n, ex')) (map unnest_row first_chunk) ?ns"
    unfolding first_chunk_def
    by (auto simp: list_all2_map1 list_all2_map2 list_all2_same coerce_widget
        intro!: list_all2_appendI simp del: replicate_Suc)
  moreover have "distinct ?ns"
    by (auto simp: distinct_map inj_on_def simp del: replicate_Suc)
  moreover have "set ?ns \<inter> set [] = {}" "set ?ns \<inter> p_name ` set [] = {}"
    by simp_all
  ultimately have "\<exists>db'. upsert_rows [] [] (map unnest_row first_chunk) =
      Inr (db', replicate (length (map unnest_row first_chunk)) True)"
    by (rule upsert_rows_fresh)
  then show ?thesis
    by (simp add: query_upsert_def length_first_chunk)
qed

lemma long_name_fails: "query_upsert db [unnest_row long_name_product] = Inl (ValueTooLong 255)"
  by (simp add: query_upsert_def coerce_row_def unnest_row_def long_name_product_def widget_def
      varchar_def)

lemma first_chunk_loop:
  "snd (bulk_loop [] first_chunk 0 0 0) = Inr (500, 0) \<and>
   length (fst (bulk_loop [] first_chunk 0 0 0)) = 500"
proof -
  from first_chunk_succeeds obtain db1 where
    q: "query_upsert [] (map unnest_row first_chunk) = Inr (db1, replicate 500 True)"
    by blast
  have ne: "first_chunk \<noteq> []"
    using length_first_chunk by auto
  have c: "chunks BATCH_SIZE first_chunk = [first_chunk]"
    by (subst chunks.simps) (simp add: ne BATCH_SIZE_def length_first_chunk chunks.simps [of _ "[]"])
  have l: "bulk_loop [] first_chunk 0 0 0 = (db1, Inr (500, 0))"
    by (simp add: bulk_loop_chunks c q)
  from upsert_rows_length [of "[]" "[]" "map unnest_row first_chunk" db1 "replicate 500 True"] q
  have "length db1 = 500"
    by (simp add: query_upsert_def)
  with l show ?thesis by simp
qed

lemma two_chunk_batch_length: "1 * BATCH_SIZE < length (uniqueProducts two_chunk_batch)"
  unfolding uniqueProducts_two_chunk_batch
  by (simp add: two_chunk_batch_def length_first_chunk BATCH_SIZE_def)

lemma two_chunk_batch_first:
  "bulk_loop [] (take (1 * BATCH_SIZE) (uniqueProducts two_chunk_batch)) 0 0 0 =
     (fst (bulk_loop [] first_chunk 0 0 0), Inr (500, 0))"
  unfolding uniqueProducts_two_chunk_batch
  using first_chunk_loop
  by (simp add: two_chunk_batch_def length_first_chunk BATCH_SIZE_def prod_eq_iff)

lemma two_chunk_batch_second:
  "query_upsert (fst (bulk_loop [] first_chunk 0 0 0))
     (map unnest_row (slice (uniqueProducts two_chunk_batch) (1 * BATCH_SIZE) (1 * BATCH_SIZE + BATCH_SIZE))) =
   Inl (ValueTooLong 255)"
  unfolding uniqueProducts_two_chunk_batch
  by (simp add: two_chunk_batch_def length_first_chunk BATCH_SIZE_def slice_def long_name_fails)

lemma two_chunk_batch_nonempty: "two_chunk_batch \<noteq> []"
  by (simp add: two_chunk_batch_def)

lemma bulk_two_chunk_batch:
  "bulk [] (Some two_chunk_batch) = (fst (bulk_loop [] first_chunk 0 0 0), Status500 (ValueTooLong 255))"
  by (rule bulk_chunk_failure
      [OF two_chunk_batch_nonempty two_chunk_batch_length two_chunk_batch_first two_chunk_batch_second])

lemma bulk_long_name: "bulk [] (Some [long_name_product]) = ([], Status500 (ValueTooLong 255))"
proof -
  have k: "product_key long_name_product = replicate (Suc 255) CHR ''c''"
    unfolding long_name_product_def
    using product_key_replicate [of "CHR ''c''" 255 Undefined] chars_abc by simp
  have u: "uniqueProducts [long_name_product] = [long_name_product]"
    by (simp add: uniqueProducts_def k)
  have c: "chunks BATCH_SIZE [long_name_product] = [long_name_product] # []"
    by (simp add: chunks.simps BATCH_SIZE_def)
  show ?thesis
    by (simp add: bulk_def u bulk_loop_chunks c long_name_fails)
qed

text \<open>
  C4, as amended. When the chunks before chunk \<open>k + 1\<close> go through (the loop over the
  first \<open>k * 500\<close> records ends with a table \<open>db1\<close> and counts) and the statement of chunk
  \<open>k + 1\<close> fails on \<open>db1\<close>, the import leaves the table \<open>db1\<close>, so the earlier chunks stay
  applied and the failing chunk is not, and it answers with status 500 and the error
  only: the response carries no counts.
\<close>

theorem C4_chunk_failure_response:
  assumes "products \<noteq> []"
    and "k * BATCH_SIZE < length (uniqueProducts products)"
    and "bulk_loop db (take (k * BATCH_SIZE) (uniqueProducts products)) 0 0 0 = (db1, Inr (added, updated))"
    and "query_upsert db1 (map unnest_row
          (slice (uniqueProducts products) (k * BATCH_SIZE) (k * BATCH_SIZE + BATCH_SIZE))) = Inl e"
  shows "bulk db (Some products) = (db1, Status500 e) \<and>
    reported_counts (snd (bulk db (Some products))) = None"
  using bulk_chunk_failure [OF assms] by simp

theorem C4_chunk_failure_witness:
  "two_chunk_batch \<noteq> [] \<and>
   1 * BATCH_SIZE < length (uniqueProducts two_chunk_batch) \<and>
   bulk_loop [] (take (1 * BATCH_SIZE) (uniqueProducts two_chunk_batch)) 0 0 0 =
     (fst (bulk_loop [] first_chunk 0 0 0), Inr (500, 0)) \<and>
   query_upsert (fst (bulk_loop [] first_chunk 0 0 0))
     (map unnest_row (slice (uniqueProducts two_chunk_batch) (1 * BATCH_SIZE) (1 * BATCH_SIZE + BATCH_SIZE))) =
     Inl (ValueTooLong 255) \<and>
   bulk [] (Some two_chunk_batch) =
     (fst (bulk_loop [] first_chunk 0 0 0), Status500 (ValueTooLong 255)) \<and>
   reported_counts (snd (bulk [] (Some two_chunk_batch))) = None"
  using C4_chunk_failure_response
    [OF two_chunk_batch_nonempty two_chunk_batch_length two_chunk_batch_first two_chunk_batch_second]
    two_chunk_batch_nonempty two_chunk_batch_length two_chunk_batch_first two_chunk_batch_second
  by (intro conjI) simp_all

text \<open>
  C4 as stated fails: on the batch of 501 products the first chunk stores 500 rows, the
  second fails, and the response is the same status 500 as for a batch whose only
  chunk fails; it reports no counts.
\<close>

theorem C4_counts_counterexample:
  "length two_chunk_batch = 501 \<and>
   snd (bulk [] (Some two_chunk_batch)) = Status500 (ValueTooLong 255) \<and>
   length (fst (bulk [] (Some two_chunk_batch))) = 500 \<and>
   reported_counts (snd (bulk [] (Some two_chunk_batch))) = None \<and>
   bulk [] (Some [long_name_product]) = ([], Status500 (ValueTooLong 255))"
proof -
  have "length two_chunk_batch = 501"
    by (simp add: two_chunk_batch_def length_first_chunk)
  then show ?thesis
    using first_chunk_loop by (simp add: bulk_two_chunk_batch bulk_long_name)
qed

end
